theory Spec2Isabelle
  imports Main "HOL-Library.Sublist"
begin

section \<open>Strings\<close>

text \<open>
  A JavaScript string is modelled as a \<^typ>\<open>string\<close>, one \<^typ>\<open>char\<close> per UTF-16 code unit
  in the range U+0000 to U+00FF. \<open>String.prototype.trim\<close> and the regular expression class
  \<open>\s\<close> share one set of white space, which in this range is TAB, LF, VT, FF, CR, SPACE
  and NO-BREAK SPACE. On these code units \<open>toLowerCase\<close> works character by character: it
  maps A to Z and the Latin-1 capitals (U+00C0 to U+00DE without U+00D7) to the letter 32
  code points above and leaves the rest alone. Outside this range it does not: a capital
  sigma becomes one of two small letters according to its neighbours. Strings with code
  units above U+00FF are not values of the model, and what is proved about letter case is
  proved for the strings of this range only.
\<close>

definition is_space :: "char \<Rightarrow> bool" where
  "is_space c = (c \<in> set [CHR 0x09, CHR 0x0A, CHR 0x0B, CHR 0x0C, CHR 0x0D, CHR 0x20, CHR 0xA0])"

definition toLowerChar :: "char \<Rightarrow> char" where
  "toLowerChar c =
     (let n = (of_char c :: nat)
      in if (65 \<le> n \<and> n \<le> 90) \<or> (192 \<le> n \<and> n \<le> 222 \<and> n \<noteq> 215)
         then char_of (n + 32) else c)"

definition toLowerCase :: "string \<Rightarrow> string" where
  "toLowerCase s = map toLowerChar s"

definition trim :: "string \<Rightarrow> string" where
  "trim s = rev (dropWhile is_space (rev (dropWhile is_space s)))"

text \<open>
  The global replacements of \<open>normalizeTitle\<close> scan the text from left to right and never
  look again at what they have passed. \<open>remove_tags\<close> is \<open>.replace(/<[^>]*>/g, '')\<close>: a \<open><\<close>
  starts a match when a \<open>>\<close> follows somewhere, and the match ends at the first one.
\<close>

function remove_tags :: "string \<Rightarrow> string" where
  "remove_tags [] = []"
| "remove_tags (c # cs) =
     (if c = CHR ''<'' \<and> CHR ''>'' \<in> set cs
      then remove_tags (tl (dropWhile (\<lambda>x. x \<noteq> CHR ''>'') cs))
      else c # remove_tags cs)"
  by pat_completeness auto
termination
  by (relation "measure length") (auto intro: le_imp_less_Suc order_trans [OF diff_le_self length_dropWhile_le])

text \<open>\<open>replace_all pat rep\<close> is \<open>.replace(/pat/g, rep)\<close> for a pattern without
  metacharacters, as the seven entity patterns are.\<close>

function replace_all :: "string \<Rightarrow> string \<Rightarrow> string \<Rightarrow> string" where
  "replace_all pat rep [] = []"
| "replace_all pat rep (c # cs) =
     (if pat \<noteq> [] \<and> prefix pat (c # cs)
      then rep @ replace_all pat rep (drop (length pat - 1) cs)
      else c # replace_all pat rep cs)"
  by pat_completeness auto
termination
  by (relation "measure (\<lambda>(p, r, s). length s)") auto


text \<open>\<open>remove_entities\<close> is \<open>.replace(/&[^;]+;/g, '')\<close>: an ampersand starts a match when the
  next character is not a semicolon and a semicolon follows somewhere; the match ends at
  the first one.\<close>

function remove_entities :: "string \<Rightarrow> string" where
  "remove_entities [] = []"
| "remove_entities (c # cs) =
     (if c = CHR ''&'' \<and> cs \<noteq> [] \<and> hd cs \<noteq> CHR '';'' \<and> CHR '';'' \<in> set cs
      then remove_entities (tl (dropWhile (\<lambda>x. x \<noteq> CHR '';'') cs))
      else c # remove_entities cs)"
  by pat_completeness auto
termination
  by (relation "measure length") (auto intro: le_imp_less_Suc order_trans [OF diff_le_self length_dropWhile_le])

text \<open>\<open>collapse_ws\<close> is \<open>.replace(/\s+/g, ' ')\<close>.\<close>

function collapse_ws :: "string \<Rightarrow> string" where
  "collapse_ws [] = []"
| "collapse_ws (c # cs) =
     (if is_space c then CHR '' '' # collapse_ws (dropWhile is_space cs)
      else c # collapse_ws cs)"
  by pat_completeness auto
termination
  by (relation "measure length") (auto intro: le_imp_less_Suc length_dropWhile_le)

text \<open>\<open>normalizeTitle\<close>, the arrow function inside \<open>findPostByTitle\<close>; a falsy argument gives
  the empty string.\<close>

definition normalizeTitle :: "string \<Rightarrow> string" where
  "normalizeTitle str =
     (if str = [] then []
      else trim (toLowerCase (collapse_ws (remove_entities
             (replace_all ''&#038;'' ''&''
             (replace_all ''&#39;'' [CHR 0x27]
             (replace_all ''&#8216;'' [CHR 0x27]
             (replace_all ''&#8217;'' [CHR 0x27]
             (replace_all ''&quot;'' [CHR 0x22]
             (replace_all ''&amp;'' ''&''
             (replace_all ''&nbsp;'' '' ''
             (remove_tags str))))))))))))"

subsection \<open>Shapes of normalised text\<close>

text \<open>
  Three predicates describe what the regular expressions of \<open>normalizeTitle\<close> leave behind:
  no \<open>x\<close> with a \<open>y\<close> somewhere after it (no tag is left when no \<open><\<close> has a
  later \<open>>\<close>), no ampersand that starts a match of \<open>&[^;]+;\<close>, and white space only as
  single blanks.
\<close>

fun no_later :: "char \<Rightarrow> char \<Rightarrow> string \<Rightarrow> bool" where
  "no_later x y [] = True"
| "no_later x y (c # cs) = ((c = x \<longrightarrow> y \<notin> set cs) \<and> no_later x y cs)"

fun no_entity :: "string \<Rightarrow> bool" where
  "no_entity [] = True"
| "no_entity (c # cs) =
     ((c = CHR ''&'' \<longrightarrow> cs = [] \<or> hd cs = CHR '';'' \<or> CHR '';'' \<notin> set cs) \<and> no_entity cs)"


section \<open>The remote store\<close>

text \<open>
  The uploader talks to a WordPress site through \<open>axios\<close>. The site is not part of the
  repository, so it is modelled by the endpoints the code calls: a store of posts (newest
  first, as \<open>orderby=date&order=desc\<close> returns them), of categories and of tags, and an
  oracle \<open>fails\<close> that says, for the number of requests made so far and the request at hand,
  whether axios throws (a network error or a non-2xx answer). Every request and every
  \<open>sleep\<close> is recorded in \<open>trace\<close>, newest first.
\<close>

datatype taxonomy = Categories | Tags

datatype meta_value = MStr string | MList "string list"

record wp_term =
  term_id :: nat
  term_name :: string

text \<open>
  A post as the REST API returns it: \<open>title\<close> is an object with \<open>rendered\<close> and, in the
  edit context only, \<open>raw\<close>.
\<close>

record post =
  post_id :: nat
  post_slug :: string
  title_rendered :: string
  title_raw :: "string option"
  post_status :: string

text \<open>\<open>postData\<close>, the body of the create or update request.\<close>

record postData =
  pd_title :: string
  pd_content :: string
  pd_status :: string
  pd_slug :: "string option"
  pd_excerpt :: "string option"
  pd_meta :: "string \<rightharpoonup> meta_value"
  pd_acf :: "string option"
  pd_categories :: "nat list option"
  pd_tags :: "nat list option"
  pd_featured_media :: "nat option"

datatype request =
    GetPostsCheck
  | GetTerms taxonomy string
  | PostTerm taxonomy string
  | GetUrl string
  | PostMedia string
  | GetPostsBySlug string
  | GetPostsPage nat
  | PostPosts postData
  | PostPostsId nat postData

datatype event = Sleep nat | Call request

datatype file_kind = Readable | Unreadable

record world =
  posts :: "post list"
  categories :: "wp_term list"
  tags :: "wp_term list"
  next_post_id :: nat
  next_term_id :: nat
  local_files :: "string \<rightharpoonup> file_kind"
  fails :: "nat \<Rightarrow> request \<Rightarrow> bool"
  clock :: nat
  trace :: "event list"

datatype row_error =
    MissingRequiredField string
  | DuplicateTitle string nat
  | RequestFailed
  | TypeError
  | ReadError

text \<open>\<open>sleep(ms)\<close>: only the trace remembers it.\<close>

definition sleep :: "nat \<Rightarrow> world \<Rightarrow> world" where
  "sleep ms w = w\<lparr>trace := Sleep ms # trace w\<rparr>"

text \<open>One axios call: it is logged, the request counter advances, and the oracle decides.\<close>

definition http :: "world \<Rightarrow> request \<Rightarrow> bool \<times> world" where
  "http w r = (\<not> fails w (clock w) r, w\<lparr>clock := Suc (clock w), trace := Call r # trace w\<rparr>)"

definition terms_of :: "taxonomy \<Rightarrow> world \<Rightarrow> wp_term list" where
  "terms_of tax w = (case tax of Categories \<Rightarrow> categories w | Tags \<Rightarrow> tags w)"

fun contains :: "string \<Rightarrow> string \<Rightarrow> bool" where
  "contains p [] = (p = [])"
| "contains p (c # cs) = (prefix p (c # cs) \<or> contains p cs)"

text \<open>\<open>GET /{taxonomy}?search=&per_page=100\<close>: the first hundred terms whose name contains the
  search text, letter case ignored.\<close>

definition api_get_terms :: "world \<Rightarrow> taxonomy \<Rightarrow> string \<Rightarrow> (row_error + wp_term list) \<times> world" where
  "api_get_terms w tax q =
     (case http w (GetTerms tax q) of
        (ok, w') \<Rightarrow>
          (if ok then Inr (take 100 (filter (\<lambda>t. contains (toLowerCase q) (toLowerCase (term_name t)))
                                      (terms_of tax w)))
           else Inl RequestFailed, w'))"

definition add_term :: "taxonomy \<Rightarrow> wp_term \<Rightarrow> world \<Rightarrow> world" where
  "add_term tax t w =
     (case tax of Categories \<Rightarrow> w\<lparr>categories := categories w @ [t]\<rparr>
                | Tags \<Rightarrow> w\<lparr>tags := tags w @ [t]\<rparr>)"

text \<open>\<open>POST /{taxonomy}\<close>: a new term under a fresh ID.\<close>

definition api_post_term :: "world \<Rightarrow> taxonomy \<Rightarrow> string \<Rightarrow> (row_error + nat) \<times> world" where
  "api_post_term w tax name =
     (case http w (PostTerm tax name) of
        (ok, w') \<Rightarrow>
          (if ok
           then (Inr (next_term_id w'),
                 add_term tax \<lparr>term_id = next_term_id w', term_name = name\<rparr>
                   (w'\<lparr>next_term_id := Suc (next_term_id w')\<rparr>))
           else (Inl RequestFailed, w')))"

text \<open>\<open>axios.get(imageUrl)\<close> and \<open>POST /media\<close>; a media item takes its ID from the posts'
  counter.\<close>

definition api_get_url :: "world \<Rightarrow> string \<Rightarrow> bool \<times> world" where
  "api_get_url w url = http w (GetUrl url)"

definition api_post_media :: "world \<Rightarrow> string \<Rightarrow> (row_error + nat) \<times> world" where
  "api_post_media w name =
     (case http w (PostMedia name) of
        (ok, w') \<Rightarrow>
          (if ok then (Inr (next_post_id w'), w'\<lparr>next_post_id := Suc (next_post_id w')\<rparr>)
           else (Inl RequestFailed, w')))"

text \<open>\<open>GET /posts?slug=&per_page=1\<close> and \<open>GET /posts?per_page=100&page=&status=any\<close>. The
  slug query names no status; the store is taken to answer it from all its posts, as it
  answers the page query.\<close>

definition api_get_posts_slug :: "world \<Rightarrow> string \<Rightarrow> (row_error + post list) \<times> world" where
  "api_get_posts_slug w slug =
     (case http w (GetPostsBySlug slug) of
        (ok, w') \<Rightarrow>
          (if ok then Inr (take 1 (filter (\<lambda>p. post_slug p = slug) (posts w)))
           else Inl RequestFailed, w'))"

definition api_get_posts_page :: "world \<Rightarrow> nat \<Rightarrow> (row_error + post list) \<times> world" where
  "api_get_posts_page w page =
     (case http w (GetPostsPage page) of
        (ok, w') \<Rightarrow>
          (if ok then Inr (take 100 (drop (100 * (page - 1)) (posts w)))
           else Inl RequestFailed, w'))"

text \<open>\<open>POST /posts\<close> stores a new post in front; \<open>POST /posts/{id}\<close> rewrites the post with
  that ID and fails when there is none. Both answer with the post's ID and status.\<close>

definition post_of :: "nat \<Rightarrow> postData \<Rightarrow> post" where
  "post_of i pd =
     \<lparr>post_id = i, post_slug = (case pd_slug pd of Some s \<Rightarrow> s | None \<Rightarrow> []),
      title_rendered = pd_title pd, title_raw = None, post_status = pd_status pd\<rparr>"

definition api_post_posts :: "world \<Rightarrow> postData \<Rightarrow> (row_error + nat \<times> string) \<times> world" where
  "api_post_posts w pd =
     (case http w (PostPosts pd) of
        (ok, w') \<Rightarrow>
          (if ok
           then (Inr (next_post_id w', pd_status pd),
                 w'\<lparr>posts := post_of (next_post_id w') pd # posts w',
                    next_post_id := Suc (next_post_id w')\<rparr>)
           else (Inl RequestFailed, w')))"

definition api_post_posts_id :: "world \<Rightarrow> nat \<Rightarrow> postData \<Rightarrow> (row_error + nat \<times> string) \<times> world" where
  "api_post_posts_id w i pd =
     (case http w (PostPostsId i pd) of
        (ok, w') \<Rightarrow>
          (if ok \<and> i \<in> set (map post_id (posts w'))
           then (Inr (i, pd_status pd),
                 w'\<lparr>posts := map (\<lambda>p. if post_id p = i
                                       then (post_of i pd)\<lparr>post_slug :=
                                              (case pd_slug pd of Some s \<Rightarrow> s | None \<Rightarrow> post_slug p)\<rparr>
                                       else p) (posts w')\<rparr>)
           else (Inl RequestFailed, w')))"

section \<open>The uploader\<close>

text \<open>The configuration read from the environment, and \<open>JSON.parse\<close> followed by
  \<open>JSON.stringify\<close> as a parameter: \<open>None\<close> when the text does not parse.\<close>

record config =
  DEFAULT_STATUS :: string
  REQUEST_DELAY_MS :: nat
  json_parse :: "string \<Rightarrow> string option"

subsection \<open>Terms\<close>

definition getOrCreateTerm :: "config \<Rightarrow> string \<Rightarrow> taxonomy \<Rightarrow> world \<Rightarrow> nat option \<times> world" where
  "getOrCreateTerm cfg name taxonomy w =
     (if trim name = [] then (None, w)
      else let trimmedName = trim name in
        (case api_get_terms w taxonomy trimmedName of
           (Inl e, w1) \<Rightarrow> (None, w1)
         | (Inr data, w1) \<Rightarrow>
             (case find (\<lambda>t. toLowerCase (term_name t) = toLowerCase trimmedName) data of
                Some existing \<Rightarrow> (Some (term_id existing), w1)
              | None \<Rightarrow>
                  (case api_post_term (sleep (REQUEST_DELAY_MS cfg) w1) taxonomy trimmedName of
                     (Inl e, w2) \<Rightarrow> (None, w2)
                   | (Inr i, w2) \<Rightarrow> (Some i, w2)))))"

fun split_on :: "char \<Rightarrow> string \<Rightarrow> string list" where
  "split_on d [] = [[]]"
| "split_on d (c # cs) =
     (if c = d then [] # split_on d cs
      else (case split_on d cs of [] \<Rightarrow> [[c]] | y # ys \<Rightarrow> (c # y) # ys))"

text \<open>The loop of \<open>resolveTerms\<close>: an ID is kept when it is truthy, and the loop sleeps after
  every name.\<close>

fun resolve_names :: "config \<Rightarrow> taxonomy \<Rightarrow> string list \<Rightarrow> nat list \<Rightarrow> world \<Rightarrow> nat list \<times> world" where
  "resolve_names cfg taxonomy [] termIds w = (termIds, w)"
| "resolve_names cfg taxonomy (name # names) termIds w =
     (case getOrCreateTerm cfg name taxonomy w of
        (r, w1) \<Rightarrow>
          resolve_names cfg taxonomy names
            (case r of Some i \<Rightarrow> (if i \<noteq> 0 then termIds @ [i] else termIds) | None \<Rightarrow> termIds)
            (sleep (REQUEST_DELAY_MS cfg) w1))"

definition resolveTerms :: "config \<Rightarrow> string \<Rightarrow> taxonomy \<Rightarrow> world \<Rightarrow> nat list \<times> world" where
  "resolveTerms cfg termString taxonomy w =
     (if trim termString = [] then ([], w)
      else resolve_names cfg taxonomy
             (filter (\<lambda>n. n \<noteq> []) (map trim (split_on (CHR '','') termString))) [] w)"

subsection \<open>Media\<close>

text \<open>\<open>downloadImageFromUrl\<close> answers \<open>null\<close> when the download throws. \<open>uploadMedia\<close> reads a
  local file outside its \<open>try\<close> block, so a file that exists and cannot be read raises in the
  caller; every failure of the upload itself is caught.\<close>

definition downloadImageFromUrl :: "world \<Rightarrow> string \<Rightarrow> bool \<times> world" where
  "downloadImageFromUrl w imageUrl = api_get_url w imageUrl"

definition uploadMedia :: "config \<Rightarrow> string \<Rightarrow> world \<Rightarrow> (row_error + nat option) \<times> world" where
  "uploadMedia cfg filePathOrUrl w =
     (if trim filePathOrUrl = [] then (Inr None, w)
      else
        (let upload = (\<lambda>w1. case api_post_media (sleep (REQUEST_DELAY_MS cfg) w1) filePathOrUrl of
                              (Inl e, w2) \<Rightarrow> (Inr None, w2)
                            | (Inr i, w2) \<Rightarrow> (Inr (Some i), w2))
         in if prefix ''http://'' (trim filePathOrUrl) \<or> prefix ''https://'' (trim filePathOrUrl)
            then (case downloadImageFromUrl w (trim filePathOrUrl) of
                    (downloaded, w1) \<Rightarrow> if \<not> downloaded then (Inr None, w1) else upload w1)
            else (case local_files w filePathOrUrl of
                    None \<Rightarrow> (Inr None, w)
                  | Some Unreadable \<Rightarrow> (Inl ReadError, w)
                  | Some Readable \<Rightarrow> upload w)))"

subsection \<open>Looking for an existing post\<close>

definition findPostBySlug :: "string \<Rightarrow> world \<Rightarrow> nat option \<times> world" where
  "findPostBySlug slug w =
     (if trim slug = [] then (None, w)
      else (case api_get_posts_slug w (trim slug) of
              (Inl e, w1) \<Rightarrow> (None, w1)
            | (Inr data, w1) \<Rightarrow> (case data of [] \<Rightarrow> None | p # ps \<Rightarrow> Some (post_id p), w1)))"

text \<open>
  \<open>post.title?.rendered || post.title?.raw || post.title || ''\<close>: when both strings are
  empty or missing the title object itself is taken, and \<open>normalizeTitle\<close> of an object
  throws a TypeError, since an object has no \<open>replace\<close>.
\<close>

definition postTitleNormalized :: "post \<Rightarrow> row_error + string" where
  "postTitleNormalized p =
     (if title_rendered p \<noteq> [] then Inr (normalizeTitle (title_rendered p))
      else (case title_raw p of
              Some r \<Rightarrow> (if r \<noteq> [] then Inr (normalizeTitle r) else Inl TypeError)
            | None \<Rightarrow> Inl TypeError))"

text \<open>The \<open>for\<close> loop over one page.\<close>

fun check_page :: "string \<Rightarrow> post list \<Rightarrow> row_error + nat option" where
  "check_page normalizedSearchTitle [] = Inr None"
| "check_page normalizedSearchTitle (p # ps) =
     (case postTitleNormalized p of
        Inl e \<Rightarrow> Inl e
      | Inr t \<Rightarrow> (if t = normalizedSearchTitle then Inr (Some (post_id p))
                  else check_page normalizedSearchTitle ps))"

text \<open>The \<open>while (hasMore)\<close> loop, entered with \<open>page = 1\<close>; it stops once \<open>page > 10\<close>.\<close>

function scan_pages :: "string \<Rightarrow> nat \<Rightarrow> world \<Rightarrow> (row_error + nat option) \<times> world" where
  "scan_pages normalizedSearchTitle page w =
     (case api_get_posts_page w page of
        (Inl e, w1) \<Rightarrow> (Inl e, w1)
      | (Inr data, w1) \<Rightarrow>
          (if data = [] then (Inr None, w1)
           else (case check_page normalizedSearchTitle data of
                   Inl e \<Rightarrow> (Inl e, w1)
                 | Inr (Some i) \<Rightarrow> (Inr (Some i), w1)
                 | Inr None \<Rightarrow>
                     (if length data < 100 then (Inr None, w1)
                      else if page + 1 > 10 then (Inr None, w1)
                      else scan_pages normalizedSearchTitle (page + 1) w1))))"
  by pat_completeness auto
termination
  by (relation "measure (\<lambda>(t, page, w). 11 - page)") auto

declare scan_pages.simps [simp del]

text \<open>The body of \<open>findPostByTitle\<close>'s \<open>try\<close>, and the function with its \<open>catch\<close>, which
  answers \<open>null\<close> for every error.\<close>

definition findPostByTitle_try :: "string \<Rightarrow> world \<Rightarrow> (row_error + nat option) \<times> world" where
  "findPostByTitle_try title w = scan_pages (normalizeTitle title) 1 w"

definition findPostByTitle :: "string \<Rightarrow> world \<Rightarrow> nat option \<times> world" where
  "findPostByTitle title w =
     (if trim title = [] then (None, w)
      else (case findPostByTitle_try title w of
              (Inl e, w1) \<Rightarrow> (None, w1)
            | (Inr r, w1) \<Rightarrow> (r, w1)))"

subsection \<open>One row\<close>

text \<open>A CSV row: a column that the file does not have is \<open>None\<close> (\<open>undefined\<close>).\<close>

record row =
  title :: "string option"
  content :: "string option"
  status :: "string option"
  slug :: "string option"
  excerpt :: "string option"
  meta_description :: "string option"
  focus_keyword :: "string option"
  primary_keyword :: "string option"
  seo_title :: "string option"
  og_title :: "string option"
  og_description :: "string option"
  twitter_title :: "string option"
  twitter_description :: "string option"
  canonical_url :: "string option"
  noindex :: "string option"
  nofollow :: "string option"
  schema_json :: "string option"
  acf_json :: "string option"
  row_categories :: "string option"
  row_tags :: "string option"
  featured_image_path :: "string option"
  featured_image_url :: "string option"

datatype action = created | updated

record result =
  rowNumber :: nat
  res_title :: string
  res_action :: "action option"
  postId :: "nat option"
  res_status :: "string option"
  error :: "row_error option"

text \<open>\<open>x?.trim()\<close> as a condition, \<open>x?.trim()\<close> as a value where it is truthy, and \<open>a || b\<close>
  on two columns.\<close>

definition truthy_trim :: "string option \<Rightarrow> bool" where
  "truthy_trim x = (case x of None \<Rightarrow> False | Some s \<Rightarrow> trim s \<noteq> [])"

definition trimmed :: "string option \<Rightarrow> string" where
  "trimmed x = (case x of None \<Rightarrow> [] | Some s \<Rightarrow> trim s)"

definition js_or :: "string option \<Rightarrow> string option \<Rightarrow> string option" where
  "js_or a b = (case a of Some s \<Rightarrow> (if s \<noteq> [] then Some s else b) | None \<Rightarrow> b)"

definition set_meta :: "bool \<Rightarrow> string list \<Rightarrow> string \<Rightarrow> (string \<rightharpoonup> meta_value) \<Rightarrow> (string \<rightharpoonup> meta_value)" where
  "set_meta cond keys v m = (if cond then fold (\<lambda>k m'. m'(k \<mapsto> MStr v)) keys m else m)"

text \<open>
  Focus keyword: the guard trims both columns, the value is
  \<open>(row.focus_keyword || row.primary_keyword).trim()\<close>. Under the guard one of the two is a
  non-empty string, so the disjunction is never \<open>undefined\<close>.
\<close>

definition keyword_meta :: "row \<Rightarrow> (string \<rightharpoonup> meta_value) \<Rightarrow> (string \<rightharpoonup> meta_value)" where
  "keyword_meta r m =
     (if truthy_trim (focus_keyword r) \<or> truthy_trim (primary_keyword r)
      then (case js_or (focus_keyword r) (primary_keyword r) of
              Some k \<Rightarrow> m(''_yoast_wpseo_focuskw'' \<mapsto> MStr (trim k),
                          ''rank_math_focus_keyword'' \<mapsto> MStr (trim k))
            | None \<Rightarrow> m)
      else m)"

definition is_yes :: "string option \<Rightarrow> bool" where
  "is_yes x = (case x of None \<Rightarrow> False | Some s \<Rightarrow> trim s \<noteq> [] \<and> toLowerCase s = ''yes'')"

text \<open>
  Six statements of \<open>createOrUpdatePost\<close> (lines 441, 446, 451, 456, 467 and 471) are written
  \<open>postData.meta._yoast_wpseo_opengraph-title = ...\<close> and the like. The left-hand side is a
  subtraction, \<open>postData.meta._yoast_wpseo_opengraph - title\<close>, and no assignment target:
  JavaScript refuses the statement with a SyntaxError, and as it stands the module does
  not load. None of the six is an assignment to a key of \<open>meta\<close>. The model keeps each of them
  at its place, with the text of its left-hand side and its value, and gives it the only
  effect on \<open>meta\<close> that the source supports: none.
\<close>

definition rejected_assignment :: "bool \<Rightarrow> string \<Rightarrow> string \<Rightarrow> (string \<rightharpoonup> meta_value) \<Rightarrow> (string \<rightharpoonup> meta_value)" where
  "rejected_assignment cond lhs v m = m"

text \<open>\<open>noindex\<close> and \<open>nofollow\<close>: of the two statements under each guard, the second one, on
  \<open>rank_math_robots\<close>, is an assignment.\<close>

definition robots_meta :: "row \<Rightarrow> (string \<rightharpoonup> meta_value) \<Rightarrow> (string \<rightharpoonup> meta_value)" where
  "robots_meta r m =
     (let m1 = (if is_yes (noindex r)
                then (rejected_assignment True ''postData.meta._yoast_wpseo_meta-robots-noindex'' ''1'' m)
                       (''rank_math_robots'' \<mapsto> MList [''noindex''])
                else m)
      in if is_yes (nofollow r)
         then (let m2 = rejected_assignment True ''postData.meta._yoast_wpseo_meta-robots-nofollow'' ''1'' m1
               in (case m2 ''rank_math_robots'' of
                     Some (MList xs) \<Rightarrow> m2(''rank_math_robots'' \<mapsto> MList (xs @ [''nofollow'']))
                   | _ \<Rightarrow> m2(''rank_math_robots'' \<mapsto> MList [''nofollow''])))
         else m1)"

definition schema_meta :: "config \<Rightarrow> row \<Rightarrow> (string \<rightharpoonup> meta_value) \<Rightarrow> (string \<rightharpoonup> meta_value)" where
  "schema_meta cfg r m =
     (case schema_json r of
        None \<Rightarrow> m
      | Some s \<Rightarrow> (if trim s \<noteq> []
                   then (case json_parse cfg s of Some j \<Rightarrow> m(''_schema_json'' \<mapsto> MStr j) | None \<Rightarrow> m)
                   else m))"

text \<open>The \<open>meta\<close> object, statement by statement in the order of the source.\<close>

definition build_meta :: "config \<Rightarrow> row \<Rightarrow> (string \<rightharpoonup> meta_value)" where
  "build_meta cfg r =
     schema_meta cfg r
       (robots_meta r
         (set_meta (truthy_trim (canonical_url r))
            [''_yoast_wpseo_canonical'', ''rank_math_canonical_url''] (trimmed (canonical_url r))
         (rejected_assignment (truthy_trim (twitter_description r))
            ''postData.meta._yoast_wpseo_twitter-description'' (trimmed (twitter_description r))
         (rejected_assignment (truthy_trim (twitter_title r))
            ''postData.meta._yoast_wpseo_twitter-title'' (trimmed (twitter_title r))
         (rejected_assignment (truthy_trim (og_description r))
            ''postData.meta._yoast_wpseo_opengraph-description'' (trimmed (og_description r))
         (rejected_assignment (truthy_trim (og_title r))
            ''postData.meta._yoast_wpseo_opengraph-title'' (trimmed (og_title r))
         (set_meta (truthy_trim (seo_title r))
            [''_yoast_wpseo_title'', ''rank_math_title''] (trimmed (seo_title r))
         (keyword_meta r
         (set_meta (truthy_trim (meta_description r))
            [''_yoast_wpseo_metadesc'', ''rank_math_description''] (trimmed (meta_description r))
            Map.empty)))))))))"

text \<open>\<open>postData\<close> before any request is made: the core fields, \<open>meta\<close> and the ACF object.\<close>

definition initial_postData :: "config \<Rightarrow> row \<Rightarrow> postData" where
  "initial_postData cfg r =
     \<lparr>pd_title = trimmed (title r),
      pd_content = trimmed (content r),
      pd_status = (if truthy_trim (status r) then trimmed (status r) else DEFAULT_STATUS cfg),
      pd_slug = (if truthy_trim (slug r) then Some (trimmed (slug r)) else None),
      pd_excerpt = (if truthy_trim (excerpt r) then Some (trimmed (excerpt r)) else None),
      pd_meta = build_meta cfg r,
      pd_acf = (case acf_json r of
                  None \<Rightarrow> None
                | Some s \<Rightarrow> (if trim s \<noteq> [] then json_parse cfg s else None)),
      pd_categories = None,
      pd_tags = None,
      pd_featured_media = None\<rparr>"

text \<open>Categories and tags are resolved from the untrimmed column; the list is attached when
  it is not empty.\<close>

definition resolve_categories :: "config \<Rightarrow> row \<Rightarrow> postData \<Rightarrow> world \<Rightarrow> postData \<times> world" where
  "resolve_categories cfg r pd w =
     (case row_categories r of
        None \<Rightarrow> (pd, w)
      | Some s \<Rightarrow>
          (if trim s = [] then (pd, w)
           else (case resolveTerms cfg s Categories w of
                   (categoryIds, w1) \<Rightarrow>
                     (if categoryIds \<noteq> [] then pd\<lparr>pd_categories := Some categoryIds\<rparr> else pd, w1))))"

definition resolve_tags :: "config \<Rightarrow> row \<Rightarrow> postData \<Rightarrow> world \<Rightarrow> postData \<times> world" where
  "resolve_tags cfg r pd w =
     (case row_tags r of
        None \<Rightarrow> (pd, w)
      | Some s \<Rightarrow>
          (if trim s = [] then (pd, w)
           else (case resolveTerms cfg s Tags w of
                   (tagIds, w1) \<Rightarrow>
                     (if tagIds \<noteq> [] then pd\<lparr>pd_tags := Some tagIds\<rparr> else pd, w1))))"

text \<open>\<open>row.featured_image_path?.trim() || row.featured_image_url?.trim()\<close>, then the upload.\<close>

definition imagePath :: "row \<Rightarrow> string option" where
  "imagePath r =
     (if truthy_trim (featured_image_path r) then Some (trimmed (featured_image_path r))
      else if truthy_trim (featured_image_url r) then Some (trimmed (featured_image_url r))
      else None)"

definition resolve_media :: "config \<Rightarrow> row \<Rightarrow> postData \<Rightarrow> world \<Rightarrow> (row_error + postData) \<times> world" where
  "resolve_media cfg r pd w =
     (case imagePath r of
        None \<Rightarrow> (Inr pd, w)
      | Some path \<Rightarrow>
          (case uploadMedia cfg path w of
             (Inl e, w1) \<Rightarrow> (Inl e, w1)
           | (Inr None, w1) \<Rightarrow> (Inr pd, w1)
           | (Inr (Some mediaId), w1) \<Rightarrow>
               (Inr (if mediaId \<noteq> 0 then pd\<lparr>pd_featured_media := Some mediaId\<rparr> else pd), w1)))"

text \<open>Everything \<open>createOrUpdatePost\<close> does between the validation and the duplicate check.\<close>

definition prepare_postData :: "config \<Rightarrow> row \<Rightarrow> world \<Rightarrow> (row_error + postData) \<times> world" where
  "prepare_postData cfg r w =
     (case resolve_categories cfg r (initial_postData cfg r) w of
        (pd1, w1) \<Rightarrow>
          (case resolve_tags cfg r pd1 w1 of
             (pd2, w2) \<Rightarrow> resolve_media cfg r pd2 w2))"

text \<open>The slug lookup, the sleep and the write.\<close>

definition write_post :: "config \<Rightarrow> postData \<Rightarrow> world \<Rightarrow> (row_error + action \<times> nat \<times> string) \<times> world" where
  "write_post cfg pd w =
     (case (case pd_slug pd of Some s \<Rightarrow> findPostBySlug s w | None \<Rightarrow> (None, w)) of
        (existingPostId, w1) \<Rightarrow>
          (let w2 = sleep (REQUEST_DELAY_MS cfg) w1;
               create = (case api_post_posts w2 pd of
                           (Inl e, w3) \<Rightarrow> (Inl e, w3)
                         | (Inr (i, st), w3) \<Rightarrow> (Inr (created, i, st), w3))
           in (case existingPostId of
                 None \<Rightarrow> create
               | Some e \<Rightarrow>
                   (if e \<noteq> 0
                    then (case api_post_posts_id w2 e pd of
                            (Inl err, w3) \<Rightarrow> (Inl err, w3)
                          | (Inr (i, st), w3) \<Rightarrow> (Inr (updated, i, st), w3))
                    else create))))"

text \<open>The duplicate check by title, which throws when it finds a truthy ID, and then the write.\<close>

definition check_and_write :: "config \<Rightarrow> postData \<Rightarrow> world \<Rightarrow> (row_error + action \<times> nat \<times> string) \<times> world" where
  "check_and_write cfg pd w =
     (case findPostByTitle (pd_title pd) w of
        (existingPostByTitle, w1) \<Rightarrow>
          (case existingPostByTitle of
             None \<Rightarrow> write_post cfg pd w1
           | Some e \<Rightarrow> (if e \<noteq> 0 then (Inl (DuplicateTitle (pd_title pd) e), w1)
                        else write_post cfg pd w1)))"

text \<open>The \<open>try\<close> block of \<open>createOrUpdatePost\<close>.\<close>

definition createOrUpdatePost_try :: "config \<Rightarrow> row \<Rightarrow> world \<Rightarrow> (row_error + action \<times> nat \<times> string) \<times> world" where
  "createOrUpdatePost_try cfg r w =
     (if \<not> truthy_trim (title r) then (Inl (MissingRequiredField ''title''), w)
      else if \<not> truthy_trim (content r) then (Inl (MissingRequiredField ''content''), w)
      else (case prepare_postData cfg r w of
              (Inl e, w1) \<Rightarrow> (Inl e, w1)
            | (Inr pd, w1) \<Rightarrow> check_and_write cfg pd w1))"

text \<open>\<open>createOrUpdatePost\<close>: the \<open>catch\<close> stores the error in the result. The progress callback
  only observes and is left out.\<close>

definition createOrUpdatePost :: "config \<Rightarrow> row \<Rightarrow> nat \<Rightarrow> world \<Rightarrow> result \<times> world" where
  "createOrUpdatePost cfg r n w =
     (let res = \<lparr>rowNumber = n,
                 res_title = (case title r of Some t \<Rightarrow> (if t \<noteq> [] then t else ''Untitled'')
                                            | None \<Rightarrow> ''Untitled''),
                 res_action = None, postId = None, res_status = None, error = None\<rparr>
      in (case createOrUpdatePost_try cfg r w of
            (Inl e, w1) \<Rightarrow> (res\<lparr>error := Some e\<rparr>, w1)
          | (Inr (a, i, st), w1) \<Rightarrow>
              (res\<lparr>res_action := Some a, postId := Some i, res_status := Some st\<rparr>, w1)))"

subsection \<open>The batch\<close>

text \<open>The loop \<open>for (let i = 0; i < rows.length; i++)\<close> of \<open>main\<close> and of \<open>processCsvFile\<close>:
  the rows still to do, the index \<open>i\<close>, and \<open>logResults\<close>.\<close>

fun process_rows :: "config \<Rightarrow> row list \<Rightarrow> nat \<Rightarrow> result list \<Rightarrow> world \<Rightarrow> result list \<times> world" where
  "process_rows cfg [] i logResults w = (logResults, w)"
| "process_rows cfg (r # rs) i logResults w =
     (case createOrUpdatePost cfg r (i + 1) w of
        (res, w1) \<Rightarrow> process_rows cfg rs (i + 1) (logResults @ [res]) w1)"

definition checkConnectivity :: "world \<Rightarrow> bool \<times> world" where
  "checkConnectivity w = http w GetPostsCheck"

datatype batch_error = NotAccessible | LoadFailed | EmptyCsv

record summary =
  total :: nat
  success :: nat
  failed :: nat
  results :: "result list"

text \<open>\<open>processCsvFile\<close>; \<open>csv\<close> is what \<open>loadCsv\<close> gives, \<open>None\<close> when it rejects. The log
  file and the duration are left out.\<close>

definition processCsvFile :: "config \<Rightarrow> row list option \<Rightarrow> world \<Rightarrow> (batch_error + summary) \<times> world" where
  "processCsvFile cfg csv w =
     (case checkConnectivity w of
        (isConnected, w1) \<Rightarrow>
          (if \<not> isConnected then (Inl NotAccessible, w1)
           else (case csv of
                   None \<Rightarrow> (Inl LoadFailed, w1)
                 | Some rows \<Rightarrow>
                     (if length rows = 0 then (Inl EmptyCsv, w1)
                      else (case process_rows cfg rows 0 [] w1 of
                              (logResults, w2) \<Rightarrow>
                                (Inr \<lparr>total = length rows,
                                      success = length (filter (\<lambda>r. error r = None) logResults),
                                      failed = length (filter (\<lambda>r. error r \<noteq> None) logResults),
                                      results = logResults\<rparr>, w2))))))"

text \<open>\<open>main\<close>: the exit code and \<open>logResults\<close>, which is empty when the module is loaded.\<close>

definition main :: "config \<Rightarrow> row list option \<Rightarrow> world \<Rightarrow> (nat \<times> result list) \<times> world" where
  "main cfg csv w =
     (case checkConnectivity w of
        (isConnected, w1) \<Rightarrow>
          (if \<not> isConnected then ((1, []), w1)
           else (case csv of
                   None \<Rightarrow> ((1, []), w1)
                 | Some rows \<Rightarrow>
                     (if length rows = 0 then ((0, []), w1)
                      else (case process_rows cfg rows 0 [] w1 of
                              (logResults, w2) \<Rightarrow>
                                ((if length (filter (\<lambda>r. error r \<noteq> None) logResults) > 0 then 1 else 0,
                                  logResults), w2))))))"

section \<open>Properties of traces\<close>

definition is_write :: "request \<Rightarrow> bool" where
  "is_write rq = (case rq of PostTerm tax name \<Rightarrow> True | PostMedia f \<Rightarrow> True
                   | PostPosts pd \<Rightarrow> True | PostPostsId i pd \<Rightarrow> True | _ \<Rightarrow> False)"

definition is_post_write :: "event \<Rightarrow> bool" where
  "is_post_write e = (case e of Call (PostPosts pd) \<Rightarrow> True | Call (PostPostsId i pd) \<Rightarrow> True | _ \<Rightarrow> False)"

text \<open>On a trace, newest event first: every write has a sleep of \<open>d\<close> right before it.\<close>

fun writes_delayed :: "nat \<Rightarrow> event list \<Rightarrow> bool" where
  "writes_delayed d [] = True"
| "writes_delayed d (Sleep n # tr) = writes_delayed d tr"
| "writes_delayed d (Call rq # tr) =
     ((is_write rq \<longrightarrow> (case tr of Sleep n # es \<Rightarrow> n = d | _ \<Rightarrow> False)) \<and> writes_delayed d tr)"

text \<open>On a trace, newest event first: no read-only request comes right after a sleep.\<close>

fun reads_undelayed :: "event list \<Rightarrow> bool" where
  "reads_undelayed [] = True"
| "reads_undelayed (Sleep n # tr) = reads_undelayed tr"
| "reads_undelayed (Call rq # tr) =
     ((case tr of Sleep n # es \<Rightarrow> is_write rq | _ \<Rightarrow> True) \<and> reads_undelayed tr)"

text \<open>A trace in which no read follows a sleep and which does not stop at a sleep, so that
  a read may come next.\<close>

definition settled :: "event list \<Rightarrow> bool" where
  "settled tr = (reads_undelayed tr \<and> (case tr of Sleep n # es \<Rightarrow> False | _ \<Rightarrow> True))"

section \<open>Sample data\<close>

definition cfg0 :: config where
  "cfg0 = \<lparr>DEFAULT_STATUS = ''draft'', REQUEST_DELAY_MS = 300, json_parse = (\<lambda>s. None)\<rparr>"

definition row0 :: row where
  "row0 = \<lparr>title = Some ''Hello World'', content = Some ''Body'', status = None, slug = None,
     excerpt = None, meta_description = None, focus_keyword = None, primary_keyword = None,
     seo_title = None, og_title = None, og_description = None, twitter_title = None,
     twitter_description = None, canonical_url = None, noindex = None, nofollow = None,
     schema_json = None, acf_json = None, row_categories = None, row_tags = None,
     featured_image_path = None, featured_image_url = None\<rparr>"

definition post7 :: post where
  "post7 = \<lparr>post_id = 7, post_slug = ''hello'', title_rendered = ''Hello <b>World</b>'',
     title_raw = None, post_status = ''draft''\<rparr>"

definition world0 :: world where
  "world0 = \<lparr>posts = [post7], categories = [\<lparr>term_id = 5, term_name = ''News''\<rparr>], tags = [],
     next_post_id = 8, next_term_id = 6, local_files = Map.empty,
     fails = (\<lambda>n rq. False), clock = 0, trace = []\<rparr>"

text \<open>The same store behind a connection on which every title-scan page fails, on which
  the slug search fails, and on which only the very first request fails.\<close>

definition world_scan_fails :: world where
  "world_scan_fails = world0\<lparr>fails := (\<lambda>n rq. case rq of GetPostsPage p \<Rightarrow> True | _ \<Rightarrow> False)\<rparr>"

definition world_slug_fails :: world where
  "world_slug_fails = world0\<lparr>fails := (\<lambda>n rq. case rq of GetPostsBySlug s \<Rightarrow> True | _ \<Rightarrow> False)\<rparr>"

definition world_first_fails :: world where
  "world_first_fails = world0\<lparr>fails := (\<lambda>n rq. n = 0)\<rparr>"

text \<open>The store with an untitled draft in front of post 7, the store beside a local path
  that exists and cannot be read as a file, and the store with a hundred categories whose
  names contain \<open>Tech\<close>.\<close>

definition world_untitled :: world where
  "world_untitled = world0\<lparr>posts :=
     [\<lparr>post_id = 9, post_slug = [], title_rendered = [], title_raw = None,
       post_status = ''draft''\<rparr>, post7]\<rparr>"

definition world_unreadable :: world where
  "world_unreadable = world0\<lparr>local_files := [''uploads'' \<mapsto> Unreadable]\<rparr>"

definition world_many_terms :: world where
  "world_many_terms = world0\<lparr>categories :=
     replicate 100 \<lparr>term_id = 5, term_name = ''Technology''\<rparr>\<rparr>"

text \<open>The store with another post in front of post 7.\<close>

definition world_two_posts :: world where
  "world_two_posts = world0\<lparr>posts :=
     [\<lparr>post_id = 9, post_slug = ''other'', title_rendered = ''Other news'', title_raw = None,
       post_status = ''publish''\<rparr>, post7]\<rparr>"

section \<open>Title normalisation\<close>

subsection \<open>Characters\<close>

lemma char_eq_code: "c = d \<longleftrightarrow> (of_char c :: nat) = of_char d"
  by simp

lemma is_space_code: "is_space c \<longleftrightarrow> (of_char c :: nat) \<in> {9, 10, 11, 12, 13, 32, 160}"
  unfolding is_space_def
  by (simp add: char_eq_code [of c "CHR 0x09"] char_eq_code [of c "CHR 0x0A"]
      char_eq_code [of c "CHR 0x0B"] char_eq_code [of c "CHR 0x0C"] char_eq_code [of c "CHR 0x0D"]
      char_eq_code [of c "CHR 0x20"] char_eq_code [of c "CHR 0xA0"] del: of_char_eq_iff)

lemma of_char_toLowerChar:
  "(of_char (toLowerChar c) :: nat) =
     (let n = of_char c in
      if (65 \<le> n \<and> n \<le> 90) \<or> (192 \<le> n \<and> n \<le> 222 \<and> n \<noteq> 215) then n + 32 else n)"
  by (auto simp: toLowerChar_def Let_def)

lemma is_space_lower [simp]: "is_space (toLowerChar c) = is_space c"
  by (auto simp: is_space_code of_char_toLowerChar Let_def)

lemma toLowerChar_idem [simp]: "toLowerChar (toLowerChar c) = toLowerChar c"
proof -
  have "(of_char (toLowerChar (toLowerChar c)) :: nat) = of_char (toLowerChar c)"
    by (simp add: of_char_toLowerChar [of "toLowerChar c"] Let_def) (auto simp: of_char_toLowerChar Let_def)
  then show ?thesis by simp
qed



lemma set_tl_dropWhile: "set (tl (dropWhile P cs)) \<subseteq> set cs"
  by (metis list.set_sel(2) set_dropWhileD subsetI tl_Nil)

lemma set_remove_tags: "set (remove_tags s) \<subseteq> set s"
proof (induction s rule: remove_tags.induct)
  case 1 show ?case by simp
next
  case (2 c cs)
  show ?case
  proof (cases "c = CHR ''<'' \<and> CHR ''>'' \<in> set cs")
    case True
    with 2 have "set (remove_tags (c # cs)) \<subseteq> set (tl (dropWhile (\<lambda>x. x \<noteq> CHR ''>'') cs))" by simp
    also have "\<dots> \<subseteq> set cs" by (rule set_tl_dropWhile)
    finally show ?thesis by auto
  next
    case False
    with 2 show ?thesis by auto
  qed
qed






lemma no_later_dropWhile: "no_later x y s \<Longrightarrow> no_later x y (dropWhile P s)"
  by (induction s) auto

lemma no_later_tl: "no_later x y s \<Longrightarrow> no_later x y (tl s)"
  by (cases s) auto




lemma no_later_remove_tags_any: "no_later x y s \<Longrightarrow> no_later x y (remove_tags s)"
proof (induction s rule: remove_tags.induct)
  case 1 show ?case by simp
next
  case (2 c cs)
  show ?case
  proof (cases "c = CHR ''<'' \<and> CHR ''>'' \<in> set cs")
    case True
    from 2(3) have "no_later x y (tl (dropWhile (\<lambda>x. x \<noteq> CHR ''>'') cs))"
      by (simp add: no_later_tl no_later_dropWhile)
    with 2(1) True show ?thesis by simp
  next
    case False
    with 2 set_remove_tags [of cs] show ?thesis by auto
  qed
qed




lemma is_space_blank [simp]: "is_space (CHR '' '')"
  by (simp add: is_space_def)





lemma no_entity_append_right: "no_entity (a @ b) \<Longrightarrow> no_entity b"
  by (induction a) auto




lemma not_space_semicolon [simp]: "\<not> is_space (CHR '';'')"
  by (simp add: is_space_def)
















lemma trim_idem: "trim (trim s) = trim s"
proof -
  define v where "v = dropWhile is_space s"
  define w where "w = dropWhile is_space (rev v)"
  have t: "trim s = rev w" by (simp add: trim_def v_def w_def)
  have dw: "dropWhile is_space w = w" by (simp add: w_def dropWhile_idem)
  have "dropWhile is_space (rev w) = rev w"
  proof (cases "w = []")
    case True then show ?thesis by simp
  next
    case False
    have "rev v = takeWhile is_space (rev v) @ w" by (simp add: w_def)
    then have e: "v = rev w @ rev (takeWhile is_space (rev v))"
      by (metis rev_append rev_rev_ident)
    have vn: "v \<noteq> []" using False by (auto simp: w_def)
    then have "\<not> is_space (hd v)" unfolding v_def by (metis hd_dropWhile)
    moreover have "hd v = hd (rev w)" using e False by (metis hd_append2 rev_is_Nil_conv)
    ultimately have "\<not> is_space (hd (rev w))" by simp
    then show ?thesis using False by (cases "rev w") auto
  qed
  then have "trim (rev w) = rev (dropWhile is_space w)" by (simp add: trim_def)
  also have "\<dots> = rev w" by (simp only: dw)
  finally show ?thesis using t by simp
qed




lemma collapse_ws_space: "is_space c \<Longrightarrow> collapse_ws (c # cs) = CHR '' '' # collapse_ws (dropWhile is_space cs)"
  by simp

lemma collapse_ws_nonspace: "\<not> is_space c \<Longrightarrow> collapse_ws (c # cs) = c # collapse_ws cs"
  by simp





lemma not_space_specials [simp]:
  "\<not> is_space (CHR ''<'')" "\<not> is_space (CHR ''>'')" "\<not> is_space (CHR ''&'')"
  by (simp_all add: is_space_def)



































section \<open>The payload\<close>

lemma not_space_y: "\<not> is_space (CHR ''y'')" "\<not> is_space (CHR ''s'')"
  by (simp_all add: is_space_def)

lemma yes_not_blank: "toLowerCase s = ''yes'' \<Longrightarrow> trim s \<noteq> []"
proof -
  assume a: "toLowerCase s = ''yes''"
  then obtain a1 a2 a3 where s: "s = [a1, a2, a3]" and l: "toLowerChar a1 = CHR ''y''"
    unfolding toLowerCase_def by (auto simp: map_eq_Cons_conv)
  have "is_space a1 = is_space (toLowerChar a1)" by simp
  then have "\<not> is_space a1" using l not_space_y by simp
  then show ?thesis using s by (simp add: trim_def)
qed

lemma is_yes_iff: "is_yes x \<longleftrightarrow> (\<exists>s. x = Some s \<and> toLowerCase s = ''yes'')"
  using yes_not_blank by (auto simp: is_yes_def split: option.splits)

lemma set_meta_other: "k \<notin> set keys \<Longrightarrow> set_meta c keys v m k = m k"
  by (induction keys arbitrary: m) (auto simp: set_meta_def)

lemma keyword_meta_other:
  "k \<noteq> ''_yoast_wpseo_focuskw'' \<Longrightarrow> k \<noteq> ''rank_math_focus_keyword'' \<Longrightarrow> keyword_meta r m k = m k"
  by (auto simp: keyword_meta_def split: option.splits)

lemma schema_meta_other: "k \<noteq> ''_schema_json'' \<Longrightarrow> schema_meta cfg r m k = m k"
  by (auto simp: schema_meta_def split: option.splits)

lemma rejected_assignment_key: "rejected_assignment c lhs v m k = m k"
  by (simp add: rejected_assignment_def)

lemma robots_noindex_key:
  "robots_meta r m ''_yoast_wpseo_meta-robots-noindex'' = m ''_yoast_wpseo_meta-robots-noindex''"
  by (auto simp: robots_meta_def rejected_assignment_def Let_def split: option.splits meta_value.splits)

lemma robots_rank_math_key:
  "m ''rank_math_robots'' = None \<Longrightarrow>
   robots_meta r m ''rank_math_robots'' =
     (if is_yes (noindex r)
      then Some (MList (if is_yes (nofollow r) then [''noindex'', ''nofollow''] else [''noindex'']))
      else if is_yes (nofollow r) then Some (MList [''nofollow'']) else None)"
  by (auto simp: robots_meta_def rejected_assignment_def Let_def split: option.splits meta_value.splits)

lemma build_meta_noindex: "build_meta cfg r ''_yoast_wpseo_meta-robots-noindex'' = None"
  by (simp add: build_meta_def schema_meta_other robots_noindex_key set_meta_other keyword_meta_other
      rejected_assignment_key)

lemma build_meta_rank_math_robots:
  "build_meta cfg r ''rank_math_robots'' =
     (if is_yes (noindex r)
      then Some (MList (if is_yes (nofollow r) then [''noindex'', ''nofollow''] else [''noindex'']))
      else if is_yes (nofollow r) then Some (MList [''nofollow'']) else None)"
  by (simp add: build_meta_def schema_meta_other robots_rank_math_key set_meta_other keyword_meta_other
      rejected_assignment_key)

lemma resolve_categories_fields:
  "resolve_categories cfg r pd w = (pd', w') \<Longrightarrow>
     pd_meta pd' = pd_meta pd \<and> pd_title pd' = pd_title pd \<and> pd_slug pd' = pd_slug pd"
  by (auto simp: resolve_categories_def split: option.splits if_splits prod.splits)

lemma resolve_tags_fields:
  "resolve_tags cfg r pd w = (pd', w') \<Longrightarrow>
     pd_meta pd' = pd_meta pd \<and> pd_title pd' = pd_title pd \<and> pd_slug pd' = pd_slug pd"
  by (auto simp: resolve_tags_def split: option.splits if_splits prod.splits)

lemma resolve_media_fields:
  "resolve_media cfg r pd w = (Inr pd', w') \<Longrightarrow>
     pd_meta pd' = pd_meta pd \<and> pd_title pd' = pd_title pd \<and> pd_slug pd' = pd_slug pd"
  by (auto simp: resolve_media_def split: option.splits if_splits prod.splits sum.splits)

lemma prepare_postData_fields:
  assumes "prepare_postData cfg r w = (Inr pd, w')"
  shows "pd_meta pd = build_meta cfg r" and "pd_title pd = trimmed (title r)"
    and "pd_slug pd = (if truthy_trim (slug r) then Some (trimmed (slug r)) else None)"
proof -
  obtain pd1 w1 where c: "resolve_categories cfg r (initial_postData cfg r) w = (pd1, w1)"
    by (cases "resolve_categories cfg r (initial_postData cfg r) w")
  obtain pd2 w2 where t: "resolve_tags cfg r pd1 w1 = (pd2, w2)"
    by (cases "resolve_tags cfg r pd1 w1")
  from assms c t have m: "resolve_media cfg r pd2 w2 = (Inr pd, w')"
    by (simp add: prepare_postData_def)
  note f = resolve_categories_fields [OF c] resolve_tags_fields [OF t] resolve_media_fields [OF m]
  show "pd_meta pd = build_meta cfg r" using f by (simp add: initial_postData_def)
  show "pd_title pd = trimmed (title r)" using f by (simp add: initial_postData_def)
  show "pd_slug pd = (if truthy_trim (slug r) then Some (trimmed (slug r)) else None)"
    using f by (simp add: initial_postData_def)
qed

text \<open>
  C7: when the \<open>noindex\<close> column is \<open>yes\<close> in any letter case, the \<open>meta\<close> object of the
  payload should carry the no-index marker of both plugins. The statement that is meant to
  set the Yoast marker (line 467) is one of the six that JavaScript refuses: no statement
  of the code assigns to the key \<open>_yoast_wpseo_meta-robots-noindex\<close>, so the \<open>meta\<close> object
  holds no such key, whatever the row, and for the row with \<open>noindex\<close> = \<open>yes\<close> the payload
  goes out without the Yoast marker. The Rank Math marker is the only one that a statement
  of the code sets (line 468, \<open>build_meta_rank_math_robots\<close>).
\<close>

theorem C7_yoast_noindex_marker_missing:
  "build_meta cfg r ''_yoast_wpseo_meta-robots-noindex'' = None \<and>
   is_yes (noindex (row0\<lparr>noindex := Some ''yes''\<rparr>)) \<and>
   pd_meta (initial_postData cfg0 (row0\<lparr>noindex := Some ''yes''\<rparr>)) ''_yoast_wpseo_meta-robots-noindex''
     = None \<and>
   pd_meta (initial_postData cfg0 (row0\<lparr>noindex := Some ''yes''\<rparr>)) ''rank_math_robots''
     = Some (MList [''noindex''])"
proof (intro conjI)
  show "build_meta cfg r ''_yoast_wpseo_meta-robots-noindex'' = None" by (rule build_meta_noindex)
  have "toLowerCase ''yes'' = ''yes''" by code_simp
  then show "is_yes (noindex (row0\<lparr>noindex := Some ''yes''\<rparr>))" by (simp add: is_yes_iff)
  show "pd_meta (initial_postData cfg0 (row0\<lparr>noindex := Some ''yes''\<rparr>)) ''_yoast_wpseo_meta-robots-noindex''
     = None"
    by (simp add: initial_postData_def build_meta_noindex)
  have y: "is_yes (Some ''yes'')"
  proof -
    have "toLowerCase ''yes'' = ''yes''" by code_simp
    then show ?thesis by (simp add: is_yes_iff)
  qed
  show "pd_meta (initial_postData cfg0 (row0\<lparr>noindex := Some ''yes''\<rparr>)) ''rank_math_robots''
     = Some (MList [''noindex''])"
    using y by (simp add: initial_postData_def build_meta_rank_math_robots is_yes_def row0_def)
qed

lemma keyword_defined:
  "truthy_trim (focus_keyword r) \<or> truthy_trim (primary_keyword r) \<Longrightarrow>
   js_or (focus_keyword r) (primary_keyword r) \<noteq> None"
  by (auto simp: truthy_trim_def js_or_def trim_def split: option.splits)

lemma build_meta_focuskw:
  "build_meta cfg r ''_yoast_wpseo_focuskw'' = keyword_meta r Map.empty ''_yoast_wpseo_focuskw''"
  "build_meta cfg r ''rank_math_focus_keyword'' = keyword_meta r Map.empty ''rank_math_focus_keyword''"
proof -
  have k: "\<And>m m' k. m k = m' k \<Longrightarrow> keyword_meta r m k = keyword_meta r m' k"
    by (auto simp: keyword_meta_def split: option.splits)
  have r: "\<And>m k. k \<noteq> ''_yoast_wpseo_meta-robots-noindex'' \<Longrightarrow> k \<noteq> ''rank_math_robots'' \<Longrightarrow>
             k \<noteq> ''_yoast_wpseo_meta-robots-nofollow'' \<Longrightarrow> robots_meta r m k = m k"
    by (auto simp: robots_meta_def rejected_assignment_def Let_def split: option.splits meta_value.splits)
  show "build_meta cfg r ''_yoast_wpseo_focuskw'' = keyword_meta r Map.empty ''_yoast_wpseo_focuskw''"
    by (simp add: build_meta_def schema_meta_other r set_meta_other rejected_assignment_def)
       (rule k, simp add: set_meta_other)
  show "build_meta cfg r ''rank_math_focus_keyword'' = keyword_meta r Map.empty ''rank_math_focus_keyword''"
    by (simp add: build_meta_def schema_meta_other r set_meta_other rejected_assignment_def)
       (rule k, simp add: set_meta_other)
qed

lemma keyword_focus_wins:
  "truthy_trim (focus_keyword r) \<Longrightarrow>
   build_meta cfg r ''_yoast_wpseo_focuskw'' = Some (MStr (trimmed (focus_keyword r))) \<and>
   build_meta cfg r ''rank_math_focus_keyword'' = Some (MStr (trimmed (focus_keyword r)))"
  by (auto simp: build_meta_focuskw keyword_meta_def truthy_trim_def trimmed_def js_or_def trim_def
      split: option.splits)

lemma keyword_primary_fallback:
  "focus_keyword r = None \<or> focus_keyword r = Some [] \<Longrightarrow> truthy_trim (primary_keyword r) \<Longrightarrow>
   build_meta cfg r ''_yoast_wpseo_focuskw'' = Some (MStr (trimmed (primary_keyword r))) \<and>
   build_meta cfg r ''rank_math_focus_keyword'' = Some (MStr (trimmed (primary_keyword r)))"
  by (auto simp: build_meta_focuskw keyword_meta_def truthy_trim_def trimmed_def js_or_def trim_def
      split: option.splits)

text \<open>
  C8: the keyword written to \<open>meta\<close> should be the first of \<open>focus_keyword\<close> and
  \<open>primary_keyword\<close> that is not empty after trimming. The two lemmas above cover a focus
  keyword with text and a focus keyword that is missing or the empty string. For a focus
  keyword of blanks only the guard lets the row through on the strength of the primary
  keyword, and the value is then taken from the untrimmed focus keyword: the payload gets
  the empty string under both keys, although \<open>primary_keyword\<close> is \<open>seo tips\<close>.
\<close>

theorem C8_blank_focus_keyword:
  "truthy_trim (primary_keyword (row0\<lparr>focus_keyword := Some ''   '', primary_keyword := Some ''seo tips''\<rparr>)) \<and>
   trimmed (focus_keyword (row0\<lparr>focus_keyword := Some ''   '', primary_keyword := Some ''seo tips''\<rparr>)) = [] \<and>
   pd_meta (initial_postData cfg0 (row0\<lparr>focus_keyword := Some ''   '', primary_keyword := Some ''seo tips''\<rparr>))
     ''_yoast_wpseo_focuskw'' = Some (MStr []) \<and>
   pd_meta (initial_postData cfg0 (row0\<lparr>focus_keyword := Some ''   '', primary_keyword := Some ''seo tips''\<rparr>))
     ''rank_math_focus_keyword'' = Some (MStr [])"
  by (simp add: initial_postData_def build_meta_focuskw keyword_meta_def truthy_trim_def trimmed_def
      js_or_def trim_def is_space_def)

section \<open>One row\<close>

text \<open>
  C3: a row whose title or content is missing, empty or white space only gets a result with
  the error \<open>Missing required field\<close> and no action, and the remote store, the request
  counter and the trace are left as they were: no request is made for the row.
\<close>

theorem C3_missing_required_field:
  assumes "\<not> truthy_trim (title r) \<or> \<not> truthy_trim (content r)"
  shows "(error (fst (createOrUpdatePost cfg r n w)) = Some (MissingRequiredField ''title'') \<or>
          error (fst (createOrUpdatePost cfg r n w)) = Some (MissingRequiredField ''content'')) \<and>
         res_action (fst (createOrUpdatePost cfg r n w)) = None \<and>
         postId (fst (createOrUpdatePost cfg r n w)) = None \<and>
         snd (createOrUpdatePost cfg r n w) = w"
  using assms by (auto simp: createOrUpdatePost_def createOrUpdatePost_try_def Let_def)

theorem C3_missing_required_field_witness:
  "\<not> truthy_trim (content (row0\<lparr>content := Some ''  ''\<rparr>)) \<and>
   error (fst (createOrUpdatePost cfg0 (row0\<lparr>content := Some ''  ''\<rparr>) 3 world0))
     = Some (MissingRequiredField ''content'') \<and>
   res_action (fst (createOrUpdatePost cfg0 (row0\<lparr>content := Some ''  ''\<rparr>) 3 world0)) = None \<and>
   snd (createOrUpdatePost cfg0 (row0\<lparr>content := Some ''  ''\<rparr>) 3 world0) = world0"
proof -
  have c: "\<not> truthy_trim (content (row0\<lparr>content := Some ''  ''\<rparr>))"
    by (simp add: truthy_trim_def trim_def is_space_def)
  have t: "truthy_trim (title (row0\<lparr>content := Some ''  ''\<rparr>))"
    by (simp add: truthy_trim_def trim_def is_space_def row0_def)
  have "error (fst (createOrUpdatePost cfg0 (row0\<lparr>content := Some ''  ''\<rparr>) 3 world0))
          \<noteq> Some (MissingRequiredField ''title'')"
    using t c by (simp add: createOrUpdatePost_def createOrUpdatePost_try_def Let_def)
  then show ?thesis
    using C3_missing_required_field [of "row0\<lparr>content := Some ''  ''\<rparr>" cfg0 3 world0] c by blast
qed

section \<open>The batch\<close>

lemma createOrUpdatePost_rowNumber: "rowNumber (fst (createOrUpdatePost cfg r n w)) = n"
  by (auto simp: createOrUpdatePost_def Let_def split: prod.splits sum.splits)

lemma createOrUpdatePost_title:
  "res_title (fst (createOrUpdatePost cfg r n w)) =
     (case title r of Some t \<Rightarrow> (if t \<noteq> [] then t else ''Untitled'') | None \<Rightarrow> ''Untitled'')"
  by (auto simp: createOrUpdatePost_def Let_def split: prod.splits sum.splits)

text \<open>The loop appends to \<open>logResults\<close> one result per row, numbered from \<open>i + 1\<close>, and keeps
  what was there.\<close>

lemma process_rows_appends:
  "\<exists>new. fst (process_rows cfg rows i logResults w) = logResults @ new \<and>
         length new = length rows \<and>
         (\<forall>k < length rows. rowNumber (new ! k) = i + 1 + k \<and>
            res_title (new ! k) =
              (case title (rows ! k) of Some t \<Rightarrow> (if t \<noteq> [] then t else ''Untitled'')
                                      | None \<Rightarrow> ''Untitled''))"
proof (induction rows arbitrary: i logResults w)
  case Nil
  show ?case by simp
next
  case (Cons r rs)
  obtain res w1 where c: "createOrUpdatePost cfg r (i + 1) w = (res, w1)"
    by (cases "createOrUpdatePost cfg r (i + 1) w")
  from Cons.IH [of "i + 1" "logResults @ [res]" w1]
  obtain new where n: "fst (process_rows cfg rs (i + 1) (logResults @ [res]) w1) = (logResults @ [res]) @ new"
    and l: "length new = length rs"
    and k: "\<forall>k < length rs. rowNumber (new ! k) = i + 1 + 1 + k \<and>
            res_title (new ! k) =
              (case title (rs ! k) of Some t \<Rightarrow> (if t \<noteq> [] then t else ''Untitled'')
                                    | None \<Rightarrow> ''Untitled'')"
    by blast
  have rn: "rowNumber res = i + 1" using createOrUpdatePost_rowNumber [of cfg r "i + 1" w] c by simp
  have rt: "res_title res = (case title r of Some t \<Rightarrow> (if t \<noteq> [] then t else ''Untitled'')
                                           | None \<Rightarrow> ''Untitled'')"
    using createOrUpdatePost_title [of cfg r "i + 1" w] c by simp
  have "fst (process_rows cfg (r # rs) i logResults w) = logResults @ (res # new)"
    using c n by simp
  moreover have "length (res # new) = length (r # rs)" using l by simp
  moreover have "\<forall>k < length (r # rs). rowNumber ((res # new) ! k) = i + 1 + k \<and>
            res_title ((res # new) ! k) =
              (case title ((r # rs) ! k) of Some t \<Rightarrow> (if t \<noteq> [] then t else ''Untitled'')
                                          | None \<Rightarrow> ''Untitled'')"
  proof (intro allI impI)
    fix k assume "k < length (r # rs)"
    then show "rowNumber ((res # new) ! k) = i + 1 + k \<and>
            res_title ((res # new) ! k) =
              (case title ((r # rs) ! k) of Some t \<Rightarrow> (if t \<noteq> [] then t else ''Untitled'')
                                          | None \<Rightarrow> ''Untitled'')"
      using rn rt k by (cases k) auto
  qed
  ultimately show ?case by blast
qed

lemma process_rows_from_empty:
  "length (fst (process_rows cfg rows 0 [] w)) = length rows \<and>
   (\<forall>k < length rows. rowNumber (fst (process_rows cfg rows 0 [] w) ! k) = k + 1 \<and>
      res_title (fst (process_rows cfg rows 0 [] w) ! k) =
        (case title (rows ! k) of Some t \<Rightarrow> (if t \<noteq> [] then t else ''Untitled'')
                                | None \<Rightarrow> ''Untitled''))"
  using process_rows_appends [of cfg rows 0 "[]" w] by auto

text \<open>The entry of a row is what \<open>createOrUpdatePost\<close> returns for it, called with the row's
  number on the store that the rows before it have left.\<close>

lemma process_rows_world:
  "snd (process_rows cfg rows i a w) = snd (process_rows cfg rows i b w)"
proof (induction rows arbitrary: i a b w)
  case Nil
  show ?case by simp
next
  case (Cons r rs)
  obtain res w1 where c: "createOrUpdatePost cfg r (i + 1) w = (res, w1)"
    by (cases "createOrUpdatePost cfg r (i + 1) w")
  show ?case using c Cons.IH [of "i + 1" "a @ [res]" w1 "b @ [res]"] by simp
qed

lemma process_rows_nth:
  "k < length rows \<Longrightarrow>
   fst (process_rows cfg rows i acc w) ! (length acc + k)
     = fst (createOrUpdatePost cfg (rows ! k) (i + k + 1) (snd (process_rows cfg (take k rows) i [] w)))"
proof (induction rows arbitrary: i acc w k)
  case Nil
  then show ?case by simp
next
  case (Cons r rs)
  obtain res w1 where c: "createOrUpdatePost cfg r (i + 1) w = (res, w1)"
    by (cases "createOrUpdatePost cfg r (i + 1) w")
  show ?case
  proof (cases k)
    case 0
    obtain new where "fst (process_rows cfg rs (i + 1) (acc @ [res]) w1) = (acc @ [res]) @ new"
      using process_rows_appends [of cfg rs "i + 1" "acc @ [res]" w1] by blast
    then have "fst (process_rows cfg (r # rs) i acc w) ! length acc = res"
      using c by (simp add: nth_append)
    then show ?thesis using 0 c by simp
  next
    case (Suc j)
    then have j: "j < length rs" using Cons.prems by simp
    have "fst (process_rows cfg (r # rs) i acc w) ! (length acc + k)
            = fst (process_rows cfg rs (i + 1) (acc @ [res]) w1) ! (length (acc @ [res]) + j)"
      using c Suc by simp
    also have "\<dots> = fst (createOrUpdatePost cfg (rs ! j) (i + 1 + j + 1)
                         (snd (process_rows cfg (take j rs) (i + 1) [] w1)))"
      by (rule Cons.IH [OF j])
    also have "snd (process_rows cfg (take j rs) (i + 1) [] w1)
                 = snd (process_rows cfg (take k (r # rs)) i [] w)"
      using c Suc process_rows_world [of cfg "take j rs" "i + 1" "[]" w1 "[res]"] by simp
    finally show ?thesis using Suc by simp
  qed
qed

lemma process_rows_entry:
  "k < length rows \<Longrightarrow>
   fst (process_rows cfg rows 0 [] w) ! k
     = fst (createOrUpdatePost cfg (rows ! k) (k + 1) (snd (process_rows cfg (take k rows) 0 [] w)))"
  using process_rows_nth [of k rows cfg 0 "[]" w] by simp

lemma count_split: "length (filter P xs) + length (filter (\<lambda>x. \<not> P x) xs) = length xs"
  by (induction xs) auto

text \<open>
  C9: the batch driver appends exactly one result per input row, in input order: the result
  sequence is as long as the row sequence, and its \<open>k\<close>-th entry is the result that
  \<open>createOrUpdatePost\<close> returns for the \<open>k\<close>-th row, called with row number \<open>k + 1\<close> on the
  store as the rows before it have left it; the entry carries that number and the title of
  the row, whatever happened to the row. \<open>processCsvFile\<close> and \<open>main\<close> hand out that
  sequence whenever they reach the loop; the summary counts the entries without an error
  and those with one, and the two counts add up to the number of rows.
\<close>

theorem C9_one_result_per_row:
  "(length (fst (process_rows cfg rows 0 [] w)) = length rows \<and>
    (\<forall>k < length rows.
       fst (process_rows cfg rows 0 [] w) ! k
         = fst (createOrUpdatePost cfg (rows ! k) (k + 1) (snd (process_rows cfg (take k rows) 0 [] w))) \<and>
       rowNumber (fst (process_rows cfg rows 0 [] w) ! k) = k + 1 \<and>
       res_title (fst (process_rows cfg rows 0 [] w) ! k) =
         (case title (rows ! k) of Some t \<Rightarrow> (if t \<noteq> [] then t else ''Untitled'')
                                 | None \<Rightarrow> ''Untitled''))) \<and>
   (\<forall>sm. fst (processCsvFile cfg (Some rows) w) = Inr sm \<longrightarrow>
      results sm = fst (process_rows cfg rows 0 [] (snd (checkConnectivity w))) \<and>
      length (results sm) = length rows \<and> total sm = length rows \<and>
      success sm = length (filter (\<lambda>r. error r = None) (results sm)) \<and>
      failed sm = length (filter (\<lambda>r. error r \<noteq> None) (results sm)) \<and>
      success sm + failed sm = length rows) \<and>
   (fst (checkConnectivity w) \<and> rows \<noteq> [] \<longrightarrow>
      snd (fst (main cfg (Some rows) w)) = fst (process_rows cfg rows 0 [] (snd (checkConnectivity w))) \<and>
      length (snd (fst (main cfg (Some rows) w))) = length rows)"
proof (intro conjI)
  show "length (fst (process_rows cfg rows 0 [] w)) = length rows"
    using process_rows_from_empty by blast
  show "\<forall>k < length rows.
       fst (process_rows cfg rows 0 [] w) ! k
         = fst (createOrUpdatePost cfg (rows ! k) (k + 1) (snd (process_rows cfg (take k rows) 0 [] w))) \<and>
       rowNumber (fst (process_rows cfg rows 0 [] w) ! k) = k + 1 \<and>
       res_title (fst (process_rows cfg rows 0 [] w) ! k) =
         (case title (rows ! k) of Some t \<Rightarrow> (if t \<noteq> [] then t else ''Untitled'')
                                 | None \<Rightarrow> ''Untitled'')"
    using process_rows_from_empty [of cfg rows w] process_rows_entry [of _ rows cfg w] by blast
  show "\<forall>sm. fst (processCsvFile cfg (Some rows) w) = Inr sm \<longrightarrow>
      results sm = fst (process_rows cfg rows 0 [] (snd (checkConnectivity w))) \<and>
      length (results sm) = length rows \<and> total sm = length rows \<and>
      success sm = length (filter (\<lambda>r. error r = None) (results sm)) \<and>
      failed sm = length (filter (\<lambda>r. error r \<noteq> None) (results sm)) \<and>
      success sm + failed sm = length rows"
  proof (intro allI impI)
    fix sm assume a: "fst (processCsvFile cfg (Some rows) w) = Inr sm"
    obtain c w1 where cc: "checkConnectivity w = (c, w1)" by (cases "checkConnectivity w")
    obtain lr w2 where pr: "process_rows cfg rows 0 [] w1 = (lr, w2)"
      by (cases "process_rows cfg rows 0 [] w1")
    have len: "length lr = length rows" using process_rows_from_empty [of cfg rows w1] pr by simp
    from a cc pr have sm: "sm = \<lparr>total = length rows,
           success = length (filter (\<lambda>r. error r = None) lr),
           failed = length (filter (\<lambda>r. error r \<noteq> None) lr), results = lr\<rparr>"
      by (auto simp: processCsvFile_def split: if_splits)
    show "results sm = fst (process_rows cfg rows 0 [] (snd (checkConnectivity w))) \<and>
      length (results sm) = length rows \<and> total sm = length rows \<and>
      success sm = length (filter (\<lambda>r. error r = None) (results sm)) \<and>
      failed sm = length (filter (\<lambda>r. error r \<noteq> None) (results sm)) \<and>
      success sm + failed sm = length rows"
      using sm cc pr len count_split [of "\<lambda>r. error r = None" lr] by simp
  qed
  show "fst (checkConnectivity w) \<and> rows \<noteq> [] \<longrightarrow>
      snd (fst (main cfg (Some rows) w)) = fst (process_rows cfg rows 0 [] (snd (checkConnectivity w))) \<and>
      length (snd (fst (main cfg (Some rows) w))) = length rows"
  proof
    assume a: "fst (checkConnectivity w) \<and> rows \<noteq> []"
    obtain c w1 where cc: "checkConnectivity w = (c, w1)" by (cases "checkConnectivity w")
    obtain lr w2 where pr: "process_rows cfg rows 0 [] w1 = (lr, w2)"
      by (cases "process_rows cfg rows 0 [] w1")
    have len: "length lr = length rows" using process_rows_from_empty [of cfg rows w1] pr by simp
    show "snd (fst (main cfg (Some rows) w)) = fst (process_rows cfg rows 0 [] (snd (checkConnectivity w))) \<and>
      length (snd (fst (main cfg (Some rows) w))) = length rows"
      using a cc pr len by (simp add: main_def)
  qed
qed

text \<open>Three rows on the sample store: a new title, the title of post 7, and a row without
  content. The first is created as post 8, the second is refused as a duplicate of post 7,
  the third is refused for its missing field.\<close>

theorem C9_one_result_per_row_witness:
  "(2::nat) < length [row0\<lparr>title := Some ''Fresh news''\<rparr>, row0, row0\<lparr>content := None\<rparr>] \<and>
   length (fst (process_rows cfg0 [row0\<lparr>title := Some ''Fresh news''\<rparr>, row0, row0\<lparr>content := None\<rparr>] 0 [] world0)) = 3 \<and>
   res_action (fst (process_rows cfg0 [row0\<lparr>title := Some ''Fresh news''\<rparr>, row0, row0\<lparr>content := None\<rparr>] 0 [] world0) ! 0)
     = Some created \<and>
   postId (fst (process_rows cfg0 [row0\<lparr>title := Some ''Fresh news''\<rparr>, row0, row0\<lparr>content := None\<rparr>] 0 [] world0) ! 0)
     = Some 8 \<and>
   error (fst (process_rows cfg0 [row0\<lparr>title := Some ''Fresh news''\<rparr>, row0, row0\<lparr>content := None\<rparr>] 0 [] world0) ! 1)
     = Some (DuplicateTitle ''Hello World'' 7) \<and>
   error (fst (process_rows cfg0 [row0\<lparr>title := Some ''Fresh news''\<rparr>, row0, row0\<lparr>content := None\<rparr>] 0 [] world0) ! 2)
     = Some (MissingRequiredField ''content'') \<and>
   rowNumber (fst (process_rows cfg0 [row0\<lparr>title := Some ''Fresh news''\<rparr>, row0, row0\<lparr>content := None\<rparr>] 0 [] world0) ! 2)
     = 3 \<and>
   (\<exists>sm. fst (processCsvFile cfg0 (Some [row0\<lparr>title := Some ''Fresh news''\<rparr>, row0, row0\<lparr>content := None\<rparr>]) world0) = Inr sm \<and>
      length (results sm) = 3 \<and> success sm + failed sm = 3) \<and>
   fst (checkConnectivity world0) \<and>
   length (snd (fst (main cfg0 (Some [row0\<lparr>title := Some ''Fresh news''\<rparr>, row0, row0\<lparr>content := None\<rparr>]) world0))) = 3"
proof -
  let ?rows = "[row0\<lparr>title := Some ''Fresh news''\<rparr>, row0, row0\<lparr>content := None\<rparr>]"
  let ?lr = "fst (process_rows cfg0 ?rows 0 [] world0)"
  have cc: "fst (checkConnectivity world0)"
    by (simp add: checkConnectivity_def http_def world0_def)
  have "\<exists>sm. fst (processCsvFile cfg0 (Some ?rows) world0) = Inr sm"
    using cc by (auto simp: processCsvFile_def split: prod.splits)
  then obtain sm where sm: "fst (processCsvFile cfg0 (Some ?rows) world0) = Inr sm" by blast
  have k0: "(0::nat) < length ?rows" and k1: "(1::nat) < length ?rows" and k2: "(2::nat) < length ?rows"
    by simp_all
  note t = C9_one_result_per_row [of cfg0 ?rows world0]
  from t have a: "length ?lr = length ?rows" by blast
  from t k0 have e0: "?lr ! 0
      = fst (createOrUpdatePost cfg0 (?rows ! 0) (0 + 1) (snd (process_rows cfg0 (take 0 ?rows) 0 [] world0)))"
    by blast
  from t k1 have e1: "?lr ! 1
      = fst (createOrUpdatePost cfg0 (?rows ! 1) (1 + 1) (snd (process_rows cfg0 (take 1 ?rows) 0 [] world0)))"
    by blast
  from t k2 have e2: "?lr ! 2
      = fst (createOrUpdatePost cfg0 (?rows ! 2) (2 + 1) (snd (process_rows cfg0 (take 2 ?rows) 0 [] world0)))"
    by blast
  from t k2 have b: "rowNumber (?lr ! 2) = 2 + 1" by blast
  have v0: "res_action (fst (createOrUpdatePost cfg0 (?rows ! 0) (0 + 1)
              (snd (process_rows cfg0 (take 0 ?rows) 0 [] world0)))) = Some created"
    by code_simp
  have v0': "postId (fst (createOrUpdatePost cfg0 (?rows ! 0) (0 + 1)
              (snd (process_rows cfg0 (take 0 ?rows) 0 [] world0)))) = Some 8"
    by code_simp
  have v1: "error (fst (createOrUpdatePost cfg0 (?rows ! 1) (1 + 1)
              (snd (process_rows cfg0 (take 1 ?rows) 0 [] world0)))) = Some (DuplicateTitle ''Hello World'' 7)"
    by code_simp
  have v2: "error (fst (createOrUpdatePost cfg0 (?rows ! 2) (2 + 1)
              (snd (process_rows cfg0 (take 2 ?rows) 0 [] world0)))) = Some (MissingRequiredField ''content'')"
    by code_simp
  from t sm have c: "length (results sm) = length ?rows \<and> success sm + failed sm = length ?rows"
    by blast
  from t cc have d: "length (snd (fst (main cfg0 (Some ?rows) world0))) = length ?rows" by blast
  have r0: "res_action (?lr ! 0) = Some created" using e0 v0 by simp
  have r0': "postId (?lr ! 0) = Some 8" using e0 v0' by simp
  have r1: "error (?lr ! 1) = Some (DuplicateTitle ''Hello World'' 7)" using e1 v1 by simp
  have r2: "error (?lr ! 2) = Some (MissingRequiredField ''content'')" using e2 v2 by simp
  show ?thesis using a b c d sm cc k2 r0 r0' r1 r2 by auto
qed

section \<open>Requests and delays\<close>

lemma trace_sleep [simp]: "trace (sleep d w) = Sleep d # trace w"
  by (simp add: sleep_def)

lemma trace_http [simp]: "trace (snd (http w rq)) = Call rq # trace w"
  by (simp add: http_def)

lemma trace_api_get_terms: "trace (snd (api_get_terms w tax q)) = Call (GetTerms tax q) # trace w"
  by (simp add: api_get_terms_def http_def)

lemma trace_add_term [simp]: "trace (add_term tax t w) = trace w"
  by (simp add: add_term_def split: taxonomy.splits)

lemma trace_api_post_term: "trace (snd (api_post_term w tax name)) = Call (PostTerm tax name) # trace w"
  by (simp add: api_post_term_def http_def)

lemma trace_api_post_media: "trace (snd (api_post_media w f)) = Call (PostMedia f) # trace w"
  by (simp add: api_post_media_def http_def)

lemma trace_api_get_posts_slug: "trace (snd (api_get_posts_slug w s)) = Call (GetPostsBySlug s) # trace w"
  by (simp add: api_get_posts_slug_def http_def)

lemma trace_api_get_posts_page: "trace (snd (api_get_posts_page w p)) = Call (GetPostsPage p) # trace w"
  by (simp add: api_get_posts_page_def http_def)

lemma trace_api_post_posts: "trace (snd (api_post_posts w pd)) = Call (PostPosts pd) # trace w"
  by (simp add: api_post_posts_def http_def)

lemma trace_api_post_posts_id: "trace (snd (api_post_posts_id w i pd)) = Call (PostPostsId i pd) # trace w"
  by (simp add: api_post_posts_id_def http_def)

text \<open>
  The next lemmas follow a property \<open>P\<close> of traces through the functions. \<open>P\<close> is kept by a
  read-only request (\<open>R\<close>), by a write that comes right after a sleep of the configured
  delay (\<open>W\<close> for terms and media, \<open>W2\<close> for posts) and, where the function sleeps on its
  own, by a sleep (\<open>S\<close>).
\<close>

lemma trace_getOrCreateTerm:
  fixes w :: world
  assumes R: "\<And>rq tr. P tr \<Longrightarrow> \<not> is_write rq \<Longrightarrow> P (Call rq # tr)"
    and W: "\<And>rq tr. P tr \<Longrightarrow> is_write rq \<Longrightarrow> \<not> is_post_write (Call rq) \<Longrightarrow>
              P (Call rq # Sleep (REQUEST_DELAY_MS cfg) # tr)"
    and a: "P (trace w)"
  shows "P (trace (snd (getOrCreateTerm cfg name tax w)))"
proof (cases "trim name = []")
  case True
  with a show ?thesis by (simp add: getOrCreateTerm_def)
next
  case False
  let ?d = "REQUEST_DELAY_MS cfg"
  obtain r w1 where g: "api_get_terms w tax (trim name) = (r, w1)"
    by (cases "api_get_terms w tax (trim name)")
  have t1: "trace w1 = Call (GetTerms tax (trim name)) # trace w"
    using trace_api_get_terms [of w tax "trim name"] g by simp
  have d1: "P (trace w1)" unfolding t1 using a by (rule R) (simp add: is_write_def)
  obtain r2 w2 where p: "api_post_term (sleep ?d w1) tax (trim name) = (r2, w2)"
    by (cases "api_post_term (sleep ?d w1) tax (trim name)")
  have t2: "trace w2 = Call (PostTerm tax (trim name)) # Sleep ?d # trace w1"
    using trace_api_post_term [of "sleep ?d w1" tax "trim name"] p by simp
  have d2: "P (trace w2)" unfolding t2 using d1 by (rule W) (simp_all add: is_write_def is_post_write_def)
  show ?thesis
    using False g p d1 d2
    by (auto simp: getOrCreateTerm_def Let_def split: sum.splits option.splits)
qed

lemma trace_resolve_names:
  fixes w :: world
  assumes R: "\<And>rq tr. P tr \<Longrightarrow> \<not> is_write rq \<Longrightarrow> P (Call rq # tr)"
    and W: "\<And>rq tr. P tr \<Longrightarrow> is_write rq \<Longrightarrow> \<not> is_post_write (Call rq) \<Longrightarrow>
              P (Call rq # Sleep (REQUEST_DELAY_MS cfg) # tr)"
    and S: "\<And>tr. P tr \<Longrightarrow> P (Sleep (REQUEST_DELAY_MS cfg) # tr)"
    and a: "P (trace w)"
  shows "P (trace (snd (resolve_names cfg tax names ids w)))"
  using a
proof (induction names arbitrary: ids w)
  case Nil
  then show ?case by simp
next
  case (Cons name names)
  obtain r w1 where g: "getOrCreateTerm cfg name tax w = (r, w1)"
    by (cases "getOrCreateTerm cfg name tax w")
  have "P (trace w1)"
    using trace_getOrCreateTerm [of P cfg w name tax, OF R W Cons.prems] g by simp
  then have "P (trace (sleep (REQUEST_DELAY_MS cfg) w1))" by (simp add: S)
  from Cons.IH [OF this] show ?case using g by simp
qed

lemma trace_resolveTerms:
  fixes w :: world
  assumes R: "\<And>rq tr. P tr \<Longrightarrow> \<not> is_write rq \<Longrightarrow> P (Call rq # tr)"
    and W: "\<And>rq tr. P tr \<Longrightarrow> is_write rq \<Longrightarrow> \<not> is_post_write (Call rq) \<Longrightarrow>
              P (Call rq # Sleep (REQUEST_DELAY_MS cfg) # tr)"
    and S: "\<And>tr. P tr \<Longrightarrow> P (Sleep (REQUEST_DELAY_MS cfg) # tr)"
    and a: "P (trace w)"
  shows "P (trace (snd (resolveTerms cfg s tax w)))"
  using a trace_resolve_names [of P cfg w, OF R W S a] by (simp add: resolveTerms_def)

lemma trace_uploadMedia:
  fixes w :: world
  assumes R: "\<And>rq tr. P tr \<Longrightarrow> \<not> is_write rq \<Longrightarrow> P (Call rq # tr)"
    and W: "\<And>rq tr. P tr \<Longrightarrow> is_write rq \<Longrightarrow> \<not> is_post_write (Call rq) \<Longrightarrow>
              P (Call rq # Sleep (REQUEST_DELAY_MS cfg) # tr)"
    and a: "P (trace w)"
  shows "P (trace (snd (uploadMedia cfg f w)))"
proof -
  let ?d = "REQUEST_DELAY_MS cfg"
  have up: "\<And>w1 :: world. P (trace w1) \<Longrightarrow>
      P (trace (snd (case api_post_media (sleep ?d w1) f of
                       (Inl e, w2) \<Rightarrow> (Inr None, w2)
                     | (Inr i, w2) \<Rightarrow> (Inr (Some i), w2))))"
  proof -
    fix w1 :: world assume b: "P (trace w1)"
    obtain r w2 where p: "api_post_media (sleep ?d w1) f = (r, w2)"
      by (cases "api_post_media (sleep ?d w1) f")
    have t: "trace w2 = Call (PostMedia f) # Sleep ?d # trace w1"
      using trace_api_post_media [of "sleep ?d w1" f] p by simp
    have "P (trace w2)" unfolding t using b by (rule W) (simp_all add: is_write_def is_post_write_def)
    then show "P (trace (snd (case api_post_media (sleep ?d w1) f of
                       (Inl e, w2) \<Rightarrow> (Inr None, w2)
                     | (Inr i, w2) \<Rightarrow> (Inr (Some i), w2))))"
      using p by (auto split: sum.splits)
  qed
  obtain dl w1 where g: "downloadImageFromUrl w (trim f) = (dl, w1)"
    by (cases "downloadImageFromUrl w (trim f)")
  have t: "trace w1 = Call (GetUrl (trim f)) # trace w"
    using g trace_http [of w "GetUrl (trim f)"] by (simp add: downloadImageFromUrl_def api_get_url_def)
  have d1: "P (trace w1)" unfolding t using a by (rule R) (simp add: is_write_def)
  show ?thesis
    using a g d1 up [OF a] up [OF d1]
    by (auto simp: uploadMedia_def Let_def split: option.splits file_kind.splits)
qed

lemma trace_findPostBySlug:
  fixes w :: world
  assumes R: "\<And>rq tr. P tr \<Longrightarrow> \<not> is_write rq \<Longrightarrow> P (Call rq # tr)"
    and a: "P (trace w)"
  shows "P (trace (snd (findPostBySlug s w)))"
proof -
  obtain r w1 where g: "api_get_posts_slug w (trim s) = (r, w1)"
    by (cases "api_get_posts_slug w (trim s)")
  have t: "trace w1 = Call (GetPostsBySlug (trim s)) # trace w"
    using trace_api_get_posts_slug [of w "trim s"] g by simp
  have "P (trace w1)" unfolding t using a by (rule R) (simp add: is_write_def)
  then show ?thesis using a g by (auto simp: findPostBySlug_def split: sum.splits)
qed

lemma trace_scan_pages:
  fixes w :: world
  assumes R: "\<And>rq tr. P tr \<Longrightarrow> \<not> is_write rq \<Longrightarrow> P (Call rq # tr)"
    and a: "P (trace w)"
  shows "P (trace (snd (scan_pages nt page w)))"
  using a
proof (induction nt page w rule: scan_pages.induct)
  case (1 nt page w)
  obtain r w1 where g: "api_get_posts_page w page = (r, w1)"
    by (cases "api_get_posts_page w page")
  have t: "trace w1 = Call (GetPostsPage page) # trace w"
    using trace_api_get_posts_page [of w page] g by simp
  have p1: "P (trace w1)" unfolding t using "1.prems" by (rule R) (simp add: is_write_def)
  show ?case
  proof (cases r)
    case (Inl e)
    with g p1 show ?thesis by (simp add: scan_pages.simps [of nt page w])
  next
    case (Inr data)
    show ?thesis
    proof (cases "data \<noteq> [] \<and> check_page nt data = Inr None \<and> \<not> length data < 100 \<and> \<not> page + 1 > 10")
      case True
      then have ne: "data \<noteq> []" and cp: "check_page nt data = Inr None"
        and nl: "\<not> length data < 100" and np: "\<not> 10 < page + 1" by auto
      have "P (trace (snd (scan_pages nt (page + 1) w1)))"
        using "1.IH" [OF g [symmetric] Inr ne cp refl nl np p1] .
      then show ?thesis using g Inr True by (simp add: scan_pages.simps [of nt page w])
    next
      case False
      then show ?thesis using g Inr p1
        by (auto simp: scan_pages.simps [of nt page w] split: sum.splits option.splits)
    qed
  qed
qed

lemma trace_findPostByTitle:
  fixes w :: world
  assumes R: "\<And>rq tr. P tr \<Longrightarrow> \<not> is_write rq \<Longrightarrow> P (Call rq # tr)"
    and a: "P (trace w)"
  shows "P (trace (snd (findPostByTitle t w)))"
  using a trace_scan_pages [of P w "normalizeTitle t" 1, OF R a]
  by (auto simp: findPostByTitle_def findPostByTitle_try_def split: prod.splits sum.splits)

lemma trace_prepare_postData:
  fixes w :: world
  assumes R: "\<And>rq tr. P tr \<Longrightarrow> \<not> is_write rq \<Longrightarrow> P (Call rq # tr)"
    and W: "\<And>rq tr. P tr \<Longrightarrow> is_write rq \<Longrightarrow> \<not> is_post_write (Call rq) \<Longrightarrow>
              P (Call rq # Sleep (REQUEST_DELAY_MS cfg) # tr)"
    and S: "(\<forall>tr. P tr \<longrightarrow> P (Sleep (REQUEST_DELAY_MS cfg) # tr)) \<or>
            (\<not> truthy_trim (row_categories r) \<and> \<not> truthy_trim (row_tags r))"
    and a: "P (trace w)"
  shows "P (trace (snd (prepare_postData cfg r w)))"
proof -
  obtain pd1 w1 where c: "resolve_categories cfg r (initial_postData cfg r) w = (pd1, w1)"
    by (cases "resolve_categories cfg r (initial_postData cfg r) w")
  obtain pd2 w2 where t: "resolve_tags cfg r pd1 w1 = (pd2, w2)"
    by (cases "resolve_tags cfg r pd1 w1")
  have p1: "P (trace w1)"
  proof (cases "truthy_trim (row_categories r)")
    case True
    with S have S': "\<And>tr. P tr \<Longrightarrow> P (Sleep (REQUEST_DELAY_MS cfg) # tr)" by blast
    from True obtain s where s: "row_categories r = Some s" "trim s \<noteq> []"
      by (auto simp: truthy_trim_def split: option.splits)
    have "P (trace (snd (resolveTerms cfg s Categories w)))"
      using R W S' a by (rule trace_resolveTerms)
    then show ?thesis using c s by (auto simp: resolve_categories_def split: prod.splits)
  next
    case False
    then show ?thesis using c a
      by (auto simp: resolve_categories_def truthy_trim_def split: option.splits if_splits)
  qed
  have p2: "P (trace w2)"
  proof (cases "truthy_trim (row_tags r)")
    case True
    with S have S': "\<And>tr. P tr \<Longrightarrow> P (Sleep (REQUEST_DELAY_MS cfg) # tr)" by blast
    from True obtain s where s: "row_tags r = Some s" "trim s \<noteq> []"
      by (auto simp: truthy_trim_def split: option.splits)
    have "P (trace (snd (resolveTerms cfg s Tags w1)))"
      using R W S' p1 by (rule trace_resolveTerms)
    then show ?thesis using t s by (auto simp: resolve_tags_def split: prod.splits)
  next
    case False
    then show ?thesis using t p1
      by (auto simp: resolve_tags_def truthy_trim_def split: option.splits if_splits)
  qed
  have "P (trace (snd (resolve_media cfg r pd2 w2)))"
  proof (cases "imagePath r")
    case None
    then show ?thesis using p2 by (simp add: resolve_media_def)
  next
    case (Some path)
    have "P (trace (snd (uploadMedia cfg path w2)))" using R W p2 by (rule trace_uploadMedia)
    then show ?thesis using Some
      by (auto simp: resolve_media_def split: prod.splits sum.splits option.splits)
  qed
  then show ?thesis using c t by (simp add: prepare_postData_def)
qed

lemma trace_write_post:
  fixes w :: world
  assumes R: "\<And>rq tr. P tr \<Longrightarrow> \<not> is_write rq \<Longrightarrow> P (Call rq # tr)"
    and W2: "\<And>rq tr. P tr \<Longrightarrow> is_post_write (Call rq) \<Longrightarrow>
              P (Call rq # Sleep (REQUEST_DELAY_MS cfg) # tr)"
    and a: "P (trace w)"
  shows "P (trace (snd (write_post cfg pd w)))"
proof -
  let ?d = "REQUEST_DELAY_MS cfg"
  obtain ex w1 where f: "(case pd_slug pd of Some s \<Rightarrow> findPostBySlug s w | None \<Rightarrow> (None, w)) = (ex, w1)"
    by (cases "case pd_slug pd of Some s \<Rightarrow> findPostBySlug s w | None \<Rightarrow> (None, w)")
  have p1: "P (trace w1)"
  proof (cases "pd_slug pd")
    case None
    with f a show ?thesis by simp
  next
    case (Some s)
    have "P (trace (snd (findPostBySlug s w)))" using R a by (rule trace_findPostBySlug)
    with f Some show ?thesis by simp
  qed
  have c: "P (trace (snd (api_post_posts (sleep ?d w1) pd)))"
    unfolding trace_api_post_posts trace_sleep using p1 by (rule W2) (simp add: is_post_write_def)
  have u: "\<And>e. P (trace (snd (api_post_posts_id (sleep ?d w1) e pd)))"
    unfolding trace_api_post_posts_id trace_sleep using p1 by (rule W2) (simp add: is_post_write_def)
  have w: "write_post cfg pd w =
      (let create = (case api_post_posts (sleep ?d w1) pd of
                       (Inl e, w3) \<Rightarrow> (Inl e, w3)
                     | (Inr (i, st), w3) \<Rightarrow> (Inr (created, i, st), w3))
       in (case ex of None \<Rightarrow> create
           | Some e \<Rightarrow> (if e \<noteq> 0
                then (case api_post_posts_id (sleep ?d w1) e pd of
                        (Inl err, w3) \<Rightarrow> (Inl err, w3)
                      | (Inr (i, st), w3) \<Rightarrow> (Inr (updated, i, st), w3))
                else create)))"
    using f by (simp add: write_post_def Let_def)
  have c': "P (trace (snd (case api_post_posts (sleep ?d w1) pd of
                       (Inl e, w3) \<Rightarrow> (Inl e, w3)
                     | (Inr (i, st), w3) \<Rightarrow> (Inr (created, i, st), w3))))"
    using c by (auto split: prod.splits sum.splits)
  have u': "\<And>e. P (trace (snd (case api_post_posts_id (sleep ?d w1) e pd of
                        (Inl err, w3) \<Rightarrow> (Inl err, w3)
                      | (Inr (i, st), w3) \<Rightarrow> (Inr (updated, i, st), w3))))"
  proof -
    fix e
    show "P (trace (snd (case api_post_posts_id (sleep ?d w1) e pd of
                        (Inl err, w3) \<Rightarrow> (Inl err, w3)
                      | (Inr (i, st), w3) \<Rightarrow> (Inr (updated, i, st), w3))))"
      using u [of e] by (auto split: prod.splits sum.splits)
  qed
  show ?thesis
    unfolding w Let_def using c' u' by (cases ex) auto
qed

lemma trace_check_and_write:
  fixes w :: world
  assumes R: "\<And>rq tr. P tr \<Longrightarrow> \<not> is_write rq \<Longrightarrow> P (Call rq # tr)"
    and W2: "\<And>rq tr. P tr \<Longrightarrow> is_post_write (Call rq) \<Longrightarrow>
              P (Call rq # Sleep (REQUEST_DELAY_MS cfg) # tr)"
    and a: "P (trace w)"
  shows "P (trace (snd (check_and_write cfg pd w)))"
proof -
  obtain ex w1 where f: "findPostByTitle (pd_title pd) w = (ex, w1)"
    by (cases "findPostByTitle (pd_title pd) w")
  have p1: "P (trace w1)" using trace_findPostByTitle [of P w "pd_title pd", OF R a] f by simp
  have "P (trace (snd (write_post cfg pd w1)))" using R W2 p1 by (rule trace_write_post)
  then show ?thesis using f p1 by (auto simp: check_and_write_def split: option.splits)
qed

lemma trace_createOrUpdatePost:
  fixes w :: world
  assumes R: "\<And>rq tr. P tr \<Longrightarrow> \<not> is_write rq \<Longrightarrow> P (Call rq # tr)"
    and W: "\<And>rq tr. P tr \<Longrightarrow> is_write rq \<Longrightarrow> \<not> is_post_write (Call rq) \<Longrightarrow>
              P (Call rq # Sleep (REQUEST_DELAY_MS cfg) # tr)"
    and W2: "\<And>rq tr. P tr \<Longrightarrow> is_post_write (Call rq) \<Longrightarrow>
              P (Call rq # Sleep (REQUEST_DELAY_MS cfg) # tr)"
    and S: "(\<forall>tr. P tr \<longrightarrow> P (Sleep (REQUEST_DELAY_MS cfg) # tr)) \<or>
            (\<not> truthy_trim (row_categories r) \<and> \<not> truthy_trim (row_tags r))"
    and a: "P (trace w)"
  shows "P (trace (snd (createOrUpdatePost cfg r n w)))"
proof -
  obtain x w1 where p: "prepare_postData cfg r w = (x, w1)" by (cases "prepare_postData cfg r w")
  have p1: "P (trace w1)" using trace_prepare_postData [of P cfg r w, OF R W S a] p by simp
  have "\<And>pd. P (trace (snd (check_and_write cfg pd w1)))" using R W2 p1 by (rule trace_check_and_write)
  then have "P (trace (snd (createOrUpdatePost_try cfg r w)))"
    using a p p1 by (auto simp: createOrUpdatePost_try_def split: sum.splits)
  then show ?thesis
    by (auto simp: createOrUpdatePost_def Let_def split: prod.splits sum.splits)
qed

lemma trace_process_rows:
  fixes w :: world
  assumes R: "\<And>rq tr. P tr \<Longrightarrow> \<not> is_write rq \<Longrightarrow> P (Call rq # tr)"
    and W: "\<And>rq tr. P tr \<Longrightarrow> is_write rq \<Longrightarrow> \<not> is_post_write (Call rq) \<Longrightarrow>
              P (Call rq # Sleep (REQUEST_DELAY_MS cfg) # tr)"
    and W2: "\<And>rq tr. P tr \<Longrightarrow> is_post_write (Call rq) \<Longrightarrow>
              P (Call rq # Sleep (REQUEST_DELAY_MS cfg) # tr)"
    and S: "\<And>tr. P tr \<Longrightarrow> P (Sleep (REQUEST_DELAY_MS cfg) # tr)"
    and a: "P (trace w)"
  shows "P (trace (snd (process_rows cfg rows i acc w)))"
  using a
proof (induction rows arbitrary: i acc w)
  case Nil
  then show ?case by simp
next
  case (Cons r rs)
  obtain res w1 where c: "createOrUpdatePost cfg r (i + 1) w = (res, w1)"
    by (cases "createOrUpdatePost cfg r (i + 1) w")
  have "P (trace w1)"
    using trace_createOrUpdatePost [of P cfg r w "i + 1", OF R W W2 _ Cons.prems] S c by simp
  from Cons.IH [OF this] show ?case using c by simp
qed

lemma writes_delayed_read: "writes_delayed d tr \<Longrightarrow> \<not> is_write rq \<Longrightarrow> writes_delayed d (Call rq # tr)"
  by simp

lemma writes_delayed_write: "writes_delayed d tr \<Longrightarrow> is_write rq \<Longrightarrow> writes_delayed d (Call rq # Sleep d # tr)"
  by simp

lemma writes_delayed_sleep: "writes_delayed d tr \<Longrightarrow> writes_delayed d (Sleep n # tr)"
  by simp

lemma settled_read: "settled tr \<Longrightarrow> \<not> is_write rq \<Longrightarrow> settled (Call rq # tr)"
  by (auto simp: settled_def split: list.splits event.splits)

lemma settled_write: "settled tr \<Longrightarrow> is_write rq \<Longrightarrow> settled (Call rq # Sleep d # tr)"
  by (auto simp: settled_def split: list.splits event.splits)

text \<open>
  C6, as stated: in every trace each write has a sleep right before it, and no read-only
  request follows a sleep. The second half fails for a row that names a category: the
  category is only looked up, \<open>resolveTerms\<close> sleeps after the lookup all the same, and the
  first page of the title scan, a read, is requested right after that sleep.
\<close>

theorem C6_counterexample:
  "(case take 3 (rev (trace (snd (createOrUpdatePost cfg0
       (row0\<lparr>title := Some ''Other'', row_categories := Some ''News''\<rparr>) 1 world0)))) of
      [Call (GetTerms Categories q), Sleep n, Call (GetPostsPage p)] \<Rightarrow> q = ''News'' \<and> n = 300 \<and> p = 1
    | _ \<Rightarrow> False) \<and>
   \<not> is_write (GetPostsPage 1) \<and>
   \<not> (writes_delayed 300 (trace (snd (createOrUpdatePost cfg0
           (row0\<lparr>title := Some ''Other'', row_categories := Some ''News''\<rparr>) 1 world0))) \<and>
      reads_undelayed (trace (snd (createOrUpdatePost cfg0
           (row0\<lparr>title := Some ''Other'', row_categories := Some ''News''\<rparr>) 1 world0))))"
  by code_simp

text \<open>
  C6, amended: every state-mutating request (term create, media upload, post create or
  update) comes right after a sleep of \<open>REQUEST_DELAY_MS\<close>, for one row and for a whole
  batch. The slug search and the title scan do not sleep; \<open>resolveTerms\<close> sleeps after every
  name, created or only found, so a read may follow a sleep in a row with categories or
  tags. In a row without categories and tags no read follows a sleep.
\<close>

theorem C6_writes_delayed:
  fixes w :: world
  shows "(writes_delayed (REQUEST_DELAY_MS cfg) (trace w) \<longrightarrow>
            writes_delayed (REQUEST_DELAY_MS cfg) (trace (snd (createOrUpdatePost cfg r n w))) \<and>
            writes_delayed (REQUEST_DELAY_MS cfg) (trace (snd (process_rows cfg rows i acc w)))) \<and>
         (\<not> truthy_trim (row_categories r) \<and> \<not> truthy_trim (row_tags r) \<and> settled (trace w) \<longrightarrow>
            settled (trace (snd (createOrUpdatePost cfg r n w))))"
proof (intro conjI impI)
  assume a: "writes_delayed (REQUEST_DELAY_MS cfg) (trace w)"
  show "writes_delayed (REQUEST_DELAY_MS cfg) (trace (snd (createOrUpdatePost cfg r n w)))"
    by (rule trace_createOrUpdatePost [where P = "writes_delayed (REQUEST_DELAY_MS cfg)"])
       (auto simp: a is_post_write_def is_write_def split: request.splits)
  show "writes_delayed (REQUEST_DELAY_MS cfg) (trace (snd (process_rows cfg rows i acc w)))"
    by (rule trace_process_rows [where P = "writes_delayed (REQUEST_DELAY_MS cfg)"])
       (auto simp: a is_post_write_def is_write_def split: request.splits)
next
  assume a: "\<not> truthy_trim (row_categories r) \<and> \<not> truthy_trim (row_tags r) \<and> settled (trace w)"
  show "settled (trace (snd (createOrUpdatePost cfg r n w)))"
  proof (rule trace_createOrUpdatePost [where P = settled])
    show "\<And>rq tr. settled tr \<Longrightarrow> \<not> is_write rq \<Longrightarrow> settled (Call rq # tr)" by (rule settled_read)
    show "\<And>rq tr. settled tr \<Longrightarrow> is_write rq \<Longrightarrow> \<not> is_post_write (Call rq) \<Longrightarrow>
            settled (Call rq # Sleep (REQUEST_DELAY_MS cfg) # tr)"
      by (rule settled_write)
    show "\<And>rq tr. settled tr \<Longrightarrow> is_post_write (Call rq) \<Longrightarrow>
            settled (Call rq # Sleep (REQUEST_DELAY_MS cfg) # tr)"
      by (rule settled_write) (auto simp: is_post_write_def is_write_def split: request.splits)
    show "(\<forall>tr. settled tr \<longrightarrow> settled (Sleep (REQUEST_DELAY_MS cfg) # tr)) \<or>
            (\<not> truthy_trim (row_categories r) \<and> \<not> truthy_trim (row_tags r))" using a by simp
    show "settled (trace w)" using a by simp
  qed
qed

theorem C6_writes_delayed_witness:
  "writes_delayed (REQUEST_DELAY_MS cfg0) (trace world0) \<and>
   writes_delayed 300 (trace (snd (createOrUpdatePost cfg0
       (row0\<lparr>title := Some ''Other'', row_categories := Some ''News, Tech''\<rparr>) 1 world0))) \<and>
   list_ex (\<lambda>e. case e of Call (PostTerm tax name) \<Rightarrow> name = ''Tech'' | _ \<Rightarrow> False)
     (trace (snd (createOrUpdatePost cfg0
       (row0\<lparr>title := Some ''Other'', row_categories := Some ''News, Tech''\<rparr>) 1 world0))) \<and>
   \<not> truthy_trim (row_categories row0) \<and> \<not> truthy_trim (row_tags row0) \<and> settled (trace world0) \<and>
   settled (trace (snd (createOrUpdatePost cfg0 row0 1 world0)))"
proof -
  have d: "REQUEST_DELAY_MS cfg0 = 300" by (simp add: cfg0_def)
  have t: "trace world0 = []" by (simp add: world0_def)
  have a: "writes_delayed (REQUEST_DELAY_MS cfg0) (trace world0)" by (simp add: t)
  have s: "settled (trace world0)" by (simp add: t settled_def)
  have n: "\<not> truthy_trim (row_categories row0) \<and> \<not> truthy_trim (row_tags row0)"
    by (simp add: row0_def truthy_trim_def)
  have p: "list_ex (\<lambda>e. case e of Call (PostTerm tax name) \<Rightarrow> name = ''Tech'' | _ \<Rightarrow> False)
     (trace (snd (createOrUpdatePost cfg0
       (row0\<lparr>title := Some ''Other'', row_categories := Some ''News, Tech''\<rparr>) 1 world0)))"
    by code_simp
  from C6_writes_delayed [of cfg0 world0 "row0\<lparr>title := Some ''Other'', row_categories := Some ''News, Tech''\<rparr>" 1 "[]" 0 "[]"] a d
  have w1: "writes_delayed 300 (trace (snd (createOrUpdatePost cfg0
       (row0\<lparr>title := Some ''Other'', row_categories := Some ''News, Tech''\<rparr>) 1 world0)))" by simp
  from C6_writes_delayed [of cfg0 world0 row0 1 "[]" 0 "[]"] n s
  have w2: "settled (trace (snd (createOrUpdatePost cfg0 row0 1 world0)))" by blast
  show ?thesis using a w1 p n s w2 by blast
qed

section \<open>What the steps of a row leave unchanged\<close>

text \<open>The posts of the store and the failure oracle are untouched by everything that
  happens before the write: term lookups and creations, the media upload, both searches.\<close>

lemma keep_sleep [simp]: "posts (sleep d w) = posts w" "fails (sleep d w) = fails w"
  "clock (sleep d w) = clock w"
  by (simp_all add: sleep_def)

lemma keep_http [simp]: "posts (snd (http w rq)) = posts w" "fails (snd (http w rq)) = fails w"
  by (simp_all add: http_def)

lemma keep_add_term [simp]: "posts (add_term tax t w) = posts w" "fails (add_term tax t w) = fails w"
  by (simp_all add: add_term_def split: taxonomy.splits)

lemma keep_api_get_terms:
  "posts (snd (api_get_terms w tax q)) = posts w \<and> fails (snd (api_get_terms w tax q)) = fails w"
  by (simp add: api_get_terms_def http_def)

lemma keep_api_post_term:
  "posts (snd (api_post_term w tax q)) = posts w \<and> fails (snd (api_post_term w tax q)) = fails w"
  by (simp add: api_post_term_def http_def)

lemma keep_api_post_media:
  "posts (snd (api_post_media w f)) = posts w \<and> fails (snd (api_post_media w f)) = fails w"
  by (simp add: api_post_media_def http_def)

lemma keep_api_get_posts_slug:
  "posts (snd (api_get_posts_slug w s)) = posts w \<and> fails (snd (api_get_posts_slug w s)) = fails w"
  by (simp add: api_get_posts_slug_def http_def)

lemma keep_api_get_posts_page:
  "posts (snd (api_get_posts_page w p)) = posts w \<and> fails (snd (api_get_posts_page w p)) = fails w"
  by (simp add: api_get_posts_page_def http_def)

lemma keep_getOrCreateTerm:
  "posts (snd (getOrCreateTerm cfg name tax w)) = posts w \<and>
   fails (snd (getOrCreateTerm cfg name tax w)) = fails w"
proof -
  let ?d = "REQUEST_DELAY_MS cfg"
  obtain r w1 where g: "api_get_terms w tax (trim name) = (r, w1)"
    by (cases "api_get_terms w tax (trim name)")
  have k1: "posts w1 = posts w \<and> fails w1 = fails w"
    using keep_api_get_terms [of w tax "trim name"] g by simp
  obtain r2 w2 where p: "api_post_term (sleep ?d w1) tax (trim name) = (r2, w2)"
    by (cases "api_post_term (sleep ?d w1) tax (trim name)")
  have k2: "posts w2 = posts w \<and> fails w2 = fails w"
    using keep_api_post_term [of "sleep ?d w1" tax "trim name"] p k1 by simp
  show ?thesis
    using g p k1 k2 by (auto simp: getOrCreateTerm_def Let_def split: sum.splits option.splits)
qed

lemma keep_resolve_names:
  "posts (snd (resolve_names cfg tax names ids w)) = posts w \<and>
   fails (snd (resolve_names cfg tax names ids w)) = fails w"
proof (induction names arbitrary: ids w)
  case Nil
  show ?case by simp
next
  case (Cons name names)
  obtain r w1 where g: "getOrCreateTerm cfg name tax w = (r, w1)"
    by (cases "getOrCreateTerm cfg name tax w")
  have "posts w1 = posts w \<and> fails w1 = fails w"
    using keep_getOrCreateTerm [of cfg name tax w] g by simp
  then show ?case using g Cons.IH [of _ "sleep (REQUEST_DELAY_MS cfg) w1"] by simp
qed

lemma keep_resolveTerms:
  "posts (snd (resolveTerms cfg s tax w)) = posts w \<and> fails (snd (resolveTerms cfg s tax w)) = fails w"
  by (simp add: resolveTerms_def keep_resolve_names)

lemma keep_uploadMedia:
  "posts (snd (uploadMedia cfg f w)) = posts w \<and> fails (snd (uploadMedia cfg f w)) = fails w"
proof -
  let ?d = "REQUEST_DELAY_MS cfg"
  have up: "\<And>w1 :: world. posts w1 = posts w \<and> fails w1 = fails w \<Longrightarrow>
      posts (snd (case api_post_media (sleep ?d w1) f of
                       (Inl e, w2) \<Rightarrow> (Inr None, w2)
                     | (Inr i, w2) \<Rightarrow> (Inr (Some i), w2))) = posts w \<and>
      fails (snd (case api_post_media (sleep ?d w1) f of
                       (Inl e, w2) \<Rightarrow> (Inr None, w2)
                     | (Inr i, w2) \<Rightarrow> (Inr (Some i), w2))) = fails w"
  proof -
    fix w1 :: world assume b: "posts w1 = posts w \<and> fails w1 = fails w"
    obtain r w2 where p: "api_post_media (sleep ?d w1) f = (r, w2)"
      by (cases "api_post_media (sleep ?d w1) f")
    have "posts w2 = posts w \<and> fails w2 = fails w"
      using keep_api_post_media [of "sleep ?d w1" f] p b by simp
    then show "posts (snd (case api_post_media (sleep ?d w1) f of
                       (Inl e, w2) \<Rightarrow> (Inr None, w2)
                     | (Inr i, w2) \<Rightarrow> (Inr (Some i), w2))) = posts w \<and>
      fails (snd (case api_post_media (sleep ?d w1) f of
                       (Inl e, w2) \<Rightarrow> (Inr None, w2)
                     | (Inr i, w2) \<Rightarrow> (Inr (Some i), w2))) = fails w"
      using p by (auto split: sum.splits)
  qed
  obtain dl w1 where g: "downloadImageFromUrl w (trim f) = (dl, w1)"
    by (cases "downloadImageFromUrl w (trim f)")
  have d1: "posts w1 = posts w \<and> fails w1 = fails w"
    using g keep_http [of w "GetUrl (trim f)"] by (simp add: downloadImageFromUrl_def api_get_url_def)
  show ?thesis
    using g d1 up [OF d1] up [of w]
    by (auto simp: uploadMedia_def Let_def split: option.splits file_kind.splits)
qed

lemma keep_prepare_postData:
  "posts (snd (prepare_postData cfg r w)) = posts w \<and> fails (snd (prepare_postData cfg r w)) = fails w"
proof -
  obtain pd1 w1 where c: "resolve_categories cfg r (initial_postData cfg r) w = (pd1, w1)"
    by (cases "resolve_categories cfg r (initial_postData cfg r) w")
  obtain pd2 w2 where t: "resolve_tags cfg r pd1 w1 = (pd2, w2)"
    by (cases "resolve_tags cfg r pd1 w1")
  have k1: "posts w1 = posts w \<and> fails w1 = fails w"
    using c keep_resolveTerms [of cfg _ Categories w]
    by (auto simp: resolve_categories_def split: option.splits if_splits prod.splits)
       (metis snd_conv)+
  have k2: "posts w2 = posts w \<and> fails w2 = fails w"
    using t k1 keep_resolveTerms [of cfg _ Tags w1]
    by (auto simp: resolve_tags_def split: option.splits if_splits prod.splits)
       (metis snd_conv)+
  have "posts (snd (resolve_media cfg r pd2 w2)) = posts w \<and>
        fails (snd (resolve_media cfg r pd2 w2)) = fails w"
  proof (cases "imagePath r")
    case None
    then show ?thesis using k2 by (simp add: resolve_media_def)
  next
    case (Some path)
    then show ?thesis using k2 keep_uploadMedia [of cfg path w2]
      by (auto simp: resolve_media_def split: prod.splits sum.splits option.splits)
  qed
  then show ?thesis using c t by (simp add: prepare_postData_def)
qed

section \<open>The title scan\<close>

lemma check_page_append:
  "check_page nt (a @ b) = (case check_page nt a of Inr None \<Rightarrow> check_page nt b | x \<Rightarrow> x)"
  by (induction a) (auto split: sum.splits option.splits)

lemma keep_scan_pages:
  "posts (snd (scan_pages nt page w)) = posts w \<and> fails (snd (scan_pages nt page w)) = fails w"
proof (induction nt page w rule: scan_pages.induct)
  case (1 nt page w)
  obtain r w1 where g: "api_get_posts_page w page = (r, w1)"
    by (cases "api_get_posts_page w page")
  have k1: "posts w1 = posts w \<and> fails w1 = fails w"
    using keep_api_get_posts_page [of w page] g by simp
  show ?case
  proof (cases r)
    case (Inl e)
    with g k1 show ?thesis by (simp add: scan_pages.simps [of nt page w])
  next
    case (Inr data)
    show ?thesis
    proof (cases "data \<noteq> [] \<and> check_page nt data = Inr None \<and> \<not> length data < 100 \<and> \<not> page + 1 > 10")
      case True
      then have ne: "data \<noteq> []" and cp: "check_page nt data = Inr None"
        and nl: "\<not> length data < 100" and np: "\<not> 10 < page + 1" by auto
      have "posts (snd (scan_pages nt (page + 1) w1)) = posts w1 \<and>
            fails (snd (scan_pages nt (page + 1) w1)) = fails w1"
        using "1.IH" [OF g [symmetric] Inr ne cp refl nl np] .
      then show ?thesis using g Inr True k1 by (simp add: scan_pages.simps [of nt page w])
    next
      case False
      then show ?thesis using g Inr k1
        by (auto simp: scan_pages.simps [of nt page w] split: sum.splits option.splits)
    qed
  qed
qed

lemma keep_findPostByTitle:
  "posts (snd (findPostByTitle t w)) = posts w \<and> fails (snd (findPostByTitle t w)) = fails w"
  using keep_scan_pages [of "normalizeTitle t" 1 w]
  by (auto simp: findPostByTitle_def findPostByTitle_try_def split: prod.splits sum.splits)

lemma keep_findPostBySlug:
  "posts (snd (findPostBySlug s w)) = posts w \<and> fails (snd (findPostBySlug s w)) = fails w"
  using keep_api_get_posts_slug [of w "trim s"]
  by (auto simp: findPostBySlug_def split: prod.splits sum.splits)

text \<open>An error of the first page request is an error of the \<open>try\<close> block.\<close>

lemma scan_pages_request_fails:
  "fails w (clock w) (GetPostsPage page) \<Longrightarrow> fst (scan_pages nt page w) = Inl RequestFailed"
  by (simp add: scan_pages.simps [of nt page w] api_get_posts_page_def http_def)

text \<open>
  When the page requests are answered, the paginated scan is a linear scan of the newest
  posts: from page \<open>page\<close> on, of the posts after the first \<open>100 * (page - 1)\<close>, up to the end of
  page 10.
\<close>

lemma scan_pages_linear:
  assumes "\<forall>n p. \<not> fails w n (GetPostsPage p)" and "1 \<le> page" and "page \<le> 10"
  shows "fst (scan_pages nt page w) =
           check_page nt (take (100 * (11 - page)) (drop (100 * (page - 1)) (posts w)))"
  using assms
proof (induction nt page w rule: scan_pages.induct)
  case (1 nt page w)
  define rest where "rest = drop (100 * (page - 1)) (posts w)"
  define data where "data = take 100 rest"
  obtain w1 where g: "api_get_posts_page w page = (Inr data, w1)"
    using "1.prems"(1) by (simp add: api_get_posts_page_def http_def data_def rest_def)
  have k1: "posts w1 = posts w \<and> fails w1 = fails w"
    using keep_api_get_posts_page [of w page] g by simp
  have n: "100 * (11 - page) = 100 + 100 * (10 - page)" using "1.prems"(3) by simp
  have sp: "take (100 * (11 - page)) rest = data @ take (100 * (10 - page)) (drop 100 rest)"
    unfolding n data_def by (simp add: take_add)
  have tgt: "check_page nt (take (100 * (11 - page)) (drop (100 * (page - 1)) (posts w))) =
             check_page nt (data @ take (100 * (10 - page)) (drop 100 rest))"
    using sp by (simp only: rest_def)
  show ?case
  proof (cases "data = []")
    case True
    then have "rest = []" by (auto simp: data_def)
    then show ?thesis unfolding tgt using g True by (simp add: scan_pages.simps [of nt page w])
  next
    case False
    note ne = this
    show ?thesis
    proof (cases "check_page nt data")
      case (Inl e)
      then show ?thesis unfolding tgt using g ne
        by (simp add: scan_pages.simps [of nt page w] check_page_append)
    next
      case (Inr found)
      show ?thesis
      proof (cases found)
        case (Some i)
        then show ?thesis unfolding tgt using g ne Inr
          by (simp add: scan_pages.simps [of nt page w] check_page_append)
      next
        case None
        show ?thesis
        proof (cases "length data < 100")
          case True
          then have "length rest < 100" by (auto simp: data_def)
          then have "drop 100 rest = []" by simp
          then show ?thesis unfolding tgt using g ne Inr None True
            by (simp add: scan_pages.simps [of nt page w] check_page_append)
        next
          case False
          note nl = this
          show ?thesis
          proof (cases "10 < page + 1")
            case True
            then have "10 - page = 0" by simp
            then show ?thesis unfolding tgt using g ne Inr None nl True
              by (simp add: scan_pages.simps [of nt page w] check_page_append)
          next
            case False
            have f1: "\<forall>n p. \<not> fails w1 n (GetPostsPage p)" using "1.prems"(1) k1 by simp
            have ih: "fst (scan_pages nt (page + 1) w1) =
                check_page nt (take (100 * (11 - (page + 1))) (drop (100 * (page + 1 - 1)) (posts w1)))"
              using "1.IH" [OF g [symmetric] refl ne _ refl nl False f1] Inr None False by simp
            have "100 * (page + 1 - 1) = 100 + 100 * (page - 1)" using "1.prems"(2) by simp
            then have "drop (100 * (page + 1 - 1)) (posts w1) = drop 100 rest"
              using k1 by (simp only: rest_def drop_drop)
            then have "fst (scan_pages nt (page + 1) w1) =
                check_page nt (take (100 * (10 - page)) (drop 100 rest))"
              using ih by simp
            then show ?thesis unfolding tgt using g ne Inr None nl False
              by (simp add: scan_pages.simps [of nt page w] check_page_append)
          qed
        qed
      qed
    qed
  qed
qed

lemma trim_trimmed: "truthy_trim x \<Longrightarrow> trim (trimmed x) \<noteq> []"
  by (auto simp: truthy_trim_def trimmed_def trim_idem split: option.splits)

lemma createOrUpdatePost_try_valid:
  assumes "truthy_trim (title r)" and "truthy_trim (content r)"
    and "prepare_postData cfg r w = (Inr pd, w1)"
  shows "createOrUpdatePost_try cfg r w = check_and_write cfg pd w1"
  using assms by (simp add: createOrUpdatePost_try_def)

lemma write_post_issues_write:
  "\<exists>rq tr. trace (snd (write_post cfg pd w)) = Call rq # Sleep (REQUEST_DELAY_MS cfg) # tr \<and>
           is_post_write (Call rq)"
proof -
  let ?d = "REQUEST_DELAY_MS cfg"
  obtain ex w1 where f: "(case pd_slug pd of Some s \<Rightarrow> findPostBySlug s w | None \<Rightarrow> (None, w)) = (ex, w1)"
    by (cases "case pd_slug pd of Some s \<Rightarrow> findPostBySlug s w | None \<Rightarrow> (None, w)")
  have c: "trace (snd (api_post_posts (sleep ?d w1) pd)) = Call (PostPosts pd) # Sleep ?d # trace w1"
    by (simp add: trace_api_post_posts)
  have u: "\<And>e. trace (snd (api_post_posts_id (sleep ?d w1) e pd)) = Call (PostPostsId e pd) # Sleep ?d # trace w1"
    by (simp add: trace_api_post_posts_id)
  have w: "write_post cfg pd w =
      (let create = (case api_post_posts (sleep ?d w1) pd of
                       (Inl e, w3) \<Rightarrow> (Inl e, w3)
                     | (Inr (i, st), w3) \<Rightarrow> (Inr (created, i, st), w3))
       in (case ex of None \<Rightarrow> create
           | Some e \<Rightarrow> (if e \<noteq> 0
                then (case api_post_posts_id (sleep ?d w1) e pd of
                        (Inl err, w3) \<Rightarrow> (Inl err, w3)
                      | (Inr (i, st), w3) \<Rightarrow> (Inr (updated, i, st), w3))
                else create)))"
    using f by (simp add: write_post_def Let_def)
  have c': "trace (snd (case api_post_posts (sleep ?d w1) pd of
                       (Inl e, w3) \<Rightarrow> (Inl e, w3)
                     | (Inr (i, st), w3) \<Rightarrow> (Inr (created, i, st), w3)))
            = Call (PostPosts pd) # Sleep ?d # trace w1"
    using c by (auto split: prod.splits sum.splits)
  have u': "\<And>e. trace (snd (case api_post_posts_id (sleep ?d w1) e pd of
                        (Inl err, w3) \<Rightarrow> (Inl err, w3)
                      | (Inr (i, st), w3) \<Rightarrow> (Inr (updated, i, st), w3)))
            = Call (PostPostsId e pd) # Sleep ?d # trace w1"
  proof -
    fix e
    show "trace (snd (case api_post_posts_id (sleep ?d w1) e pd of
                        (Inl err, w3) \<Rightarrow> (Inl err, w3)
                      | (Inr (i, st), w3) \<Rightarrow> (Inr (updated, i, st), w3)))
            = Call (PostPostsId e pd) # Sleep ?d # trace w1"
      using u [of e] by (auto split: prod.splits sum.splits)
  qed
  show ?thesis
    unfolding w Let_def using c' u' by (cases ex) (auto simp: is_post_write_def)
qed

lemma write_post_no_duplicate_error: "fst (write_post cfg pd w) \<noteq> Inl (DuplicateTitle t i)"
  by (auto simp: write_post_def Let_def api_post_posts_def api_post_posts_id_def
      split: prod.splits sum.splits option.splits if_splits)

text \<open>
  C10: when the title scan meets an error (a failed page request, or a scanned post without
  a title string), \<open>findPostByTitle\<close> answers \<open>null\<close> as if no duplicate existed: the row is
  not failed for a duplicate, the engine goes on to the slug lookup, sleeps and issues the
  create or update request, whatever the store holds.
\<close>

theorem C10_scan_error_is_no_duplicate:
  assumes "truthy_trim (title r)" and "truthy_trim (content r)"
    and "prepare_postData cfg r w = (Inr pd, w1)"
    and "findPostByTitle_try (pd_title pd) w1 = (Inl e, w2)"
  shows "findPostByTitle (pd_title pd) w1 = (None, w2) \<and>
         createOrUpdatePost_try cfg r w = write_post cfg pd w2 \<and>
         (\<forall>t i. error (fst (createOrUpdatePost cfg r n w)) \<noteq> Some (DuplicateTitle t i)) \<and>
         (\<exists>rq tr. trace (snd (createOrUpdatePost cfg r n w))
                     = Call rq # Sleep (REQUEST_DELAY_MS cfg) # tr \<and> is_post_write (Call rq))"
proof -
  have t: "trim (pd_title pd) \<noteq> []"
    using prepare_postData_fields(2) [OF assms(3)] trim_trimmed [OF assms(1)] by simp
  have f: "findPostByTitle (pd_title pd) w1 = (None, w2)"
    using t assms(4) by (simp add: findPostByTitle_def)
  have c: "createOrUpdatePost_try cfg r w = write_post cfg pd w2"
    using createOrUpdatePost_try_valid [OF assms(1,2,3)] f by (simp add: check_and_write_def)
  obtain x w3 where wp: "write_post cfg pd w2 = (x, w3)" by (cases "write_post cfg pd w2")
  have nd: "\<And>t i. x \<noteq> Inl (DuplicateTitle t i)"
    using write_post_no_duplicate_error [of cfg pd w2] wp by simp
  have tr: "trace (snd (createOrUpdatePost cfg r n w)) = trace w3"
    using c wp by (auto simp: createOrUpdatePost_def Let_def split: sum.splits)
  have er: "\<forall>t i. error (fst (createOrUpdatePost cfg r n w)) \<noteq> Some (DuplicateTitle t i)"
    using c wp nd by (auto simp: createOrUpdatePost_def Let_def split: sum.splits)
  from write_post_issues_write [of cfg pd w2] wp tr
  have "\<exists>rq tr. trace (snd (createOrUpdatePost cfg r n w))
                     = Call rq # Sleep (REQUEST_DELAY_MS cfg) # tr \<and> is_post_write (Call rq)"
    by simp
  with f c er show ?thesis by blast
qed

theorem C10_scan_error_is_no_duplicate_witness:
  "truthy_trim (title row0) \<and> truthy_trim (content row0) \<and>
   fst (findPostByTitle_try (trimmed (title row0)) world_scan_fails) = Inl RequestFailed \<and>
   normalizeTitle (title_rendered (hd (posts world_scan_fails))) = normalizeTitle (trimmed (title row0)) \<and>
   fst (findPostByTitle (trimmed (title row0)) world_scan_fails) = None \<and>
   res_action (fst (createOrUpdatePost cfg0 row0 1 world_scan_fails)) = Some created \<and>
   (\<exists>rq tr. trace (snd (createOrUpdatePost cfg0 row0 1 world_scan_fails))
               = Call rq # Sleep (REQUEST_DELAY_MS cfg0) # tr \<and> is_post_write (Call rq))"
proof -
  have t: "truthy_trim (title row0)" by code_simp
  have c: "truthy_trim (content row0)" by code_simp
  have p: "prepare_postData cfg0 row0 world_scan_fails = (Inr (initial_postData cfg0 row0), world_scan_fails)"
    by (simp add: prepare_postData_def resolve_categories_def resolve_tags_def resolve_media_def
        imagePath_def truthy_trim_def row0_def)
  have ti: "pd_title (initial_postData cfg0 row0) = trimmed (title row0)"
    by (simp add: initial_postData_def)
  have fl: "fails world_scan_fails (clock world_scan_fails) (GetPostsPage 1)"
    by (simp add: world_scan_fails_def)
  have s1: "fst (findPostByTitle_try (trimmed (title row0)) world_scan_fails) = Inl RequestFailed"
    unfolding findPostByTitle_try_def using fl by (rule scan_pages_request_fails)
  then obtain w2 where s: "findPostByTitle_try (pd_title (initial_postData cfg0 row0)) world_scan_fails
      = (Inl RequestFailed, w2)"
    unfolding ti by (cases "findPostByTitle_try (trimmed (title row0)) world_scan_fails") simp
  have d: "normalizeTitle (title_rendered (hd (posts world_scan_fails))) = normalizeTitle (trimmed (title row0))"
    by code_simp
  have a: "res_action (fst (createOrUpdatePost cfg0 row0 1 world_scan_fails)) = Some created"
    by code_simp
  note th = C10_scan_error_is_no_duplicate [OF t c p s, of 1]
  from th have f: "fst (findPostByTitle (trimmed (title row0)) world_scan_fails) = None"
    unfolding ti by simp
  from th have e: "\<exists>rq tr. trace (snd (createOrUpdatePost cfg0 row0 1 world_scan_fails))
               = Call rq # Sleep (REQUEST_DELAY_MS cfg0) # tr \<and> is_post_write (Call rq)"
    by blast
  show ?thesis using t c s1 d f a e by blast
qed

lemma postTitleNormalized_cases:
  "postTitleNormalized p = Inl TypeError \<or> (\<exists>t. postTitleNormalized p = Inr t)"
  by (auto simp: postTitleNormalized_def split: option.splits)

text \<open>The loop over a page stops at the first post with the title looked for.\<close>

lemma check_page_finds:
  assumes "k < length ps" and "postTitleNormalized (ps ! k) = Inr nt"
    and "\<forall>j<k. postTitleNormalized (ps ! j) \<noteq> Inl TypeError"
  shows "\<exists>j\<le>k. check_page nt ps = Inr (Some (post_id (ps ! j))) \<and>
                postTitleNormalized (ps ! j) = Inr nt \<and>
                (\<forall>i<j. postTitleNormalized (ps ! i) \<noteq> Inr nt)"
  using assms
proof (induction ps arbitrary: k)
  case Nil
  then show ?case by simp
next
  case (Cons p ps)
  show ?case
  proof (cases "postTitleNormalized p = Inr nt")
    case True
    then have "check_page nt (p # ps) = Inr (Some (post_id ((p # ps) ! 0))) \<and>
               postTitleNormalized ((p # ps) ! 0) = Inr nt \<and>
               (\<forall>i<(0::nat). postTitleNormalized ((p # ps) ! i) \<noteq> Inr nt)"
      by simp
    then show ?thesis by blast
  next
    case False
    then obtain k' where Suc: "k = Suc k'" using Cons.prems(2) by (cases k) auto
    from Cons.prems(3) Suc have "postTitleNormalized p \<noteq> Inl TypeError" by auto
    then obtain t where t: "postTitleNormalized p = Inr t"
      using postTitleNormalized_cases [of p] by auto
    have tn: "t \<noteq> nt" using t False by simp
    have "\<forall>j<k'. postTitleNormalized (ps ! j) \<noteq> Inl TypeError"
      using Cons.prems(3) Suc by auto
    with Cons.IH [of k'] Cons.prems(1,2) Suc
    obtain j where j: "j \<le> k'" "check_page nt ps = Inr (Some (post_id (ps ! j)))"
      "postTitleNormalized (ps ! j) = Inr nt" "\<forall>i<j. postTitleNormalized (ps ! i) \<noteq> Inr nt"
      by auto
    have f: "\<forall>i<Suc j. postTitleNormalized ((p # ps) ! i) \<noteq> Inr nt"
    proof (intro allI impI)
      fix i assume "i < Suc j"
      then show "postTitleNormalized ((p # ps) ! i) \<noteq> Inr nt"
        using False j(4) by (cases i) auto
    qed
    have "Suc j \<le> k \<and> check_page nt (p # ps) = Inr (Some (post_id ((p # ps) ! Suc j))) \<and>
          postTitleNormalized ((p # ps) ! Suc j) = Inr nt"
      using t tn Suc j by simp
    then show ?thesis using f by blast
  qed
qed

text \<open>No request for a post is added to the trace before the write.\<close>

lemma no_post_write_before_write:
  fixes w :: world
  shows "filter is_post_write (trace (snd (prepare_postData cfg r w))) = filter is_post_write (trace w)"
    and "filter is_post_write (trace (snd (findPostByTitle t w))) = filter is_post_write (trace w)"
proof -
  let ?P = "\<lambda>tr. filter is_post_write tr = filter is_post_write (trace w)"
  have R: "\<And>rq tr. ?P tr \<Longrightarrow> \<not> is_write rq \<Longrightarrow> ?P (Call rq # tr)"
    by (auto simp: is_post_write_def is_write_def split: request.splits)
  have W: "\<And>rq tr. ?P tr \<Longrightarrow> is_write rq \<Longrightarrow> \<not> is_post_write (Call rq) \<Longrightarrow>
              ?P (Call rq # Sleep (REQUEST_DELAY_MS cfg) # tr)"
    by (auto simp: is_post_write_def)
  have S: "(\<forall>tr. ?P tr \<longrightarrow> ?P (Sleep (REQUEST_DELAY_MS cfg) # tr)) \<or>
            (\<not> truthy_trim (row_categories r) \<and> \<not> truthy_trim (row_tags r))"
    by (auto simp: is_post_write_def)
  show "filter is_post_write (trace (snd (prepare_postData cfg r w))) = filter is_post_write (trace w)"
    by (rule trace_prepare_postData [where P = ?P, OF R W S]) simp_all
  show "filter is_post_write (trace (snd (findPostByTitle t w))) = filter is_post_write (trace w)"
    by (rule trace_findPostByTitle [where P = ?P, OF R]) simp_all
qed

text \<open>
  C1, as stated: every row whose normalised title equals that of a remote post gets the
  duplicate-title error, no action and no post write. Four rows with the title of post 7
  show that it fails. With an empty content the row is turned away by the validation, and
  with an image path that cannot be read it fails in \<open>uploadMedia\<close>, each time with another
  error. When the page request of the title scan fails, and when an untitled draft stands
  in front of post 7, the scan ends in the \<open>catch\<close> and the row is created.
\<close>

theorem C1_counterexample:
  "normalizeTitle (trimmed (title row0)) = normalizeTitle (title_rendered post7) \<and>
   posts world0 = [post7] \<and> posts world_scan_fails = [post7] \<and>
   posts world_unreadable = [post7] \<and> last (posts world_untitled) = post7 \<and>
   error (fst (createOrUpdatePost cfg0 (row0\<lparr>content := Some []\<rparr>) 1 world0))
     = Some (MissingRequiredField ''content'') \<and>
   error (fst (createOrUpdatePost cfg0 (row0\<lparr>featured_image_path := Some ''uploads''\<rparr>) 1
                  world_unreadable)) = Some ReadError \<and>
   error (fst (createOrUpdatePost cfg0 row0 1 world_scan_fails)) = None \<and>
   res_action (fst (createOrUpdatePost cfg0 row0 1 world_scan_fails)) = Some created \<and>
   list_ex is_post_write (trace (snd (createOrUpdatePost cfg0 row0 1 world_scan_fails))) \<and>
   error (fst (createOrUpdatePost cfg0 row0 1 world_untitled)) = None \<and>
   res_action (fst (createOrUpdatePost cfg0 row0 1 world_untitled)) = Some created \<and>
   list_ex is_post_write (trace (snd (createOrUpdatePost cfg0 row0 1 world_untitled)))"
proof (intro conjI)
  show "normalizeTitle (trimmed (title row0)) = normalizeTitle (title_rendered post7)" by code_simp
  show "posts world0 = [post7]" by (simp add: world0_def)
  show "posts world_scan_fails = [post7]" by (simp add: world_scan_fails_def world0_def)
  show "posts world_unreadable = [post7]" by (simp add: world_unreadable_def world0_def)
  show "last (posts world_untitled) = post7" by (simp add: world_untitled_def)
  show "error (fst (createOrUpdatePost cfg0 (row0\<lparr>content := Some []\<rparr>) 1 world0))
     = Some (MissingRequiredField ''content'')" by code_simp
  show "error (fst (createOrUpdatePost cfg0 (row0\<lparr>featured_image_path := Some ''uploads''\<rparr>) 1
                  world_unreadable)) = Some ReadError" by code_simp
  show "error (fst (createOrUpdatePost cfg0 row0 1 world_scan_fails)) = None" by code_simp
  show "res_action (fst (createOrUpdatePost cfg0 row0 1 world_scan_fails)) = Some created" by code_simp
  show "list_ex is_post_write (trace (snd (createOrUpdatePost cfg0 row0 1 world_scan_fails)))"
    by code_simp
  show "error (fst (createOrUpdatePost cfg0 row0 1 world_untitled)) = None" by code_simp
  show "res_action (fst (createOrUpdatePost cfg0 row0 1 world_untitled)) = Some created" by code_simp
  show "list_ex is_post_write (trace (snd (createOrUpdatePost cfg0 row0 1 world_untitled)))"
    by code_simp
qed

text \<open>
  C1, amended: take a row with a title and a content whose terms and image are resolved
  without a file read error, and let the page requests of the title scan be answered. If,
  going through the 1000 newest posts in order, a post whose normalised title equals the
  normalised trimmed title of the row comes before any post without a title string, and
  the IDs up to it are not zero, then the result carries the duplicate-title error with
  the ID of the first post, in that order, whose normalised title equals that of the row,
  no action and no post ID; no create or update request for a post is issued and the
  posts of the store are unchanged.
\<close>

theorem C1_duplicate_title_rejected:
  fixes w :: world
  assumes "truthy_trim (title r)" and "truthy_trim (content r)"
    and "fst (prepare_postData cfg r w) = Inr pd"
    and "\<forall>n p. \<not> fails w n (GetPostsPage p)"
    and "k < length (posts w)" and "k < 1000"
    and "postTitleNormalized (posts w ! k) = Inr (normalizeTitle (trimmed (title r)))"
    and "\<forall>j<k. postTitleNormalized (posts w ! j) \<noteq> Inl TypeError"
    and "\<forall>j\<le>k. post_id (posts w ! j) \<noteq> 0"
  shows "(\<exists>j\<le>k. postTitleNormalized (posts w ! j) = Inr (normalizeTitle (trimmed (title r))) \<and>
                 (\<forall>i<j. postTitleNormalized (posts w ! i) \<noteq> Inr (normalizeTitle (trimmed (title r)))) \<and>
                 error (fst (createOrUpdatePost cfg r n w))
                   = Some (DuplicateTitle (trimmed (title r)) (post_id (posts w ! j)))) \<and>
         res_action (fst (createOrUpdatePost cfg r n w)) = None \<and>
         postId (fst (createOrUpdatePost cfg r n w)) = None \<and>
         filter is_post_write (trace (snd (createOrUpdatePost cfg r n w))) = filter is_post_write (trace w) \<and>
         posts (snd (createOrUpdatePost cfg r n w)) = posts w"
proof -
  let ?nt = "normalizeTitle (trimmed (title r))"
  obtain w1 where p: "prepare_postData cfg r w = (Inr pd, w1)"
    using assms(3) by (cases "prepare_postData cfg r w") simp
  have k1: "posts w1 = posts w \<and> fails w1 = fails w"
    using keep_prepare_postData [of cfg r w] p by simp
  have t1: "filter is_post_write (trace w1) = filter is_post_write (trace w)"
    using no_post_write_before_write(1) [of cfg r w] p by simp
  have ti: "pd_title pd = trimmed (title r)" using prepare_postData_fields(2) [OF p] .
  have tn: "trim (pd_title pd) \<noteq> []" using ti trim_trimmed [OF assms(1)] by simp
  let ?ps = "take 1000 (posts w)"
  have kl: "k < length ?ps" using assms(5,6) by simp
  have "postTitleNormalized (?ps ! k) = Inr ?nt" using assms(6,7) by simp
  moreover have "\<forall>j<k. postTitleNormalized (?ps ! j) \<noteq> Inl TypeError" using assms(6,8) by simp
  ultimately obtain j where j: "j \<le> k" "check_page ?nt ?ps = Inr (Some (post_id (?ps ! j)))"
      "postTitleNormalized (?ps ! j) = Inr ?nt" "\<forall>i<j. postTitleNormalized (?ps ! i) \<noteq> Inr ?nt"
    using check_page_finds [OF kl, of ?nt] by blast
  have ij: "post_id (?ps ! j) = post_id (posts w ! j)" using j(1) assms(6) by simp
  have mj: "postTitleNormalized (posts w ! j) = Inr ?nt" using j(1,3) assms(6) by simp
  have fj: "\<forall>i<j. postTitleNormalized (posts w ! i) \<noteq> Inr ?nt"
  proof (intro allI impI)
    fix i assume "i < j"
    then have "i < j \<and> ?ps ! i = posts w ! i" using j(1) assms(6) by simp
    then show "postTitleNormalized (posts w ! i) \<noteq> Inr ?nt" using j(4) by metis
  qed
  have nz: "post_id (posts w ! j) \<noteq> 0" using assms(9) j(1) by simp
  have "fst (scan_pages ?nt 1 w1) = check_page ?nt (take (100 * (11 - 1)) (drop (100 * (1 - 1)) (posts w1)))"
    by (rule scan_pages_linear) (simp_all add: k1 assms(4))
  then have sc: "fst (scan_pages ?nt 1 w1) = Inr (Some (post_id (posts w ! j)))"
    using j(2) ij k1 by simp
  obtain w2 where f: "findPostByTitle (pd_title pd) w1 = (Some (post_id (posts w ! j)), w2)"
    using sc tn ti
    by (cases "scan_pages ?nt 1 w1") (simp add: findPostByTitle_def findPostByTitle_try_def)
  have k2: "posts w2 = posts w"
    using keep_findPostByTitle [of "pd_title pd" w1] f k1 by simp
  have t2: "filter is_post_write (trace w2) = filter is_post_write (trace w)"
    using no_post_write_before_write(2) [of "pd_title pd" w1] f t1 by simp
  have "createOrUpdatePost_try cfg r w = (Inl (DuplicateTitle (trimmed (title r)) (post_id (posts w ! j))), w2)"
    using createOrUpdatePost_try_valid [OF assms(1,2) p] f nz ti by (simp add: check_and_write_def)
  then have e: "error (fst (createOrUpdatePost cfg r n w))
                 = Some (DuplicateTitle (trimmed (title r)) (post_id (posts w ! j)))"
    and "res_action (fst (createOrUpdatePost cfg r n w)) = None"
    and "postId (fst (createOrUpdatePost cfg r n w)) = None"
    and "snd (createOrUpdatePost cfg r n w) = w2"
    by (simp_all add: createOrUpdatePost_def Let_def)
  moreover have "\<exists>j\<le>k. postTitleNormalized (posts w ! j) = Inr ?nt \<and>
                 (\<forall>i<j. postTitleNormalized (posts w ! i) \<noteq> Inr ?nt) \<and>
                 error (fst (createOrUpdatePost cfg r n w))
                   = Some (DuplicateTitle (trimmed (title r)) (post_id (posts w ! j)))"
    using j(1) mj fj e by blast
  ultimately show ?thesis using k2 t2 by simp
qed

text \<open>The row \<open>Hello World\<close> on the store with two posts: post 9, \<open>Other news\<close>, comes first
  and does not match; the error names post 7.\<close>

theorem C1_duplicate_title_rejected_witness:
  "truthy_trim (title row0) \<and> truthy_trim (content row0) \<and>
   fst (prepare_postData cfg0 row0 world_two_posts) = Inr (initial_postData cfg0 row0) \<and>
   (\<forall>n p. \<not> fails world_two_posts n (GetPostsPage p)) \<and>
   (1::nat) < length (posts world_two_posts) \<and>
   post_id (posts world_two_posts ! 0) = 9 \<and>
   postTitleNormalized (posts world_two_posts ! 0) = Inr ''other news'' \<and>
   post_id (posts world_two_posts ! 1) = 7 \<and>
   postTitleNormalized (posts world_two_posts ! 1) = Inr (normalizeTitle (trimmed (title row0))) \<and>
   normalizeTitle (trimmed (title row0)) = ''hello world'' \<and>
   error (fst (createOrUpdatePost cfg0 row0 1 world_two_posts)) = Some (DuplicateTitle ''Hello World'' 7) \<and>
   res_action (fst (createOrUpdatePost cfg0 row0 1 world_two_posts)) = None \<and>
   postId (fst (createOrUpdatePost cfg0 row0 1 world_two_posts)) = None \<and>
   filter is_post_write (trace (snd (createOrUpdatePost cfg0 row0 1 world_two_posts))) = [] \<and>
   posts (snd (createOrUpdatePost cfg0 row0 1 world_two_posts)) = posts world_two_posts"
proof -
  let ?nt = "normalizeTitle (trimmed (title row0))"
  have t: "truthy_trim (title row0)" by code_simp
  have c: "truthy_trim (content row0)" by code_simp
  have p: "fst (prepare_postData cfg0 row0 world_two_posts) = Inr (initial_postData cfg0 row0)"
    by (simp add: prepare_postData_def resolve_categories_def resolve_tags_def resolve_media_def
        imagePath_def truthy_trim_def row0_def)
  have f: "\<forall>n p. \<not> fails world_two_posts n (GetPostsPage p)"
    by (simp add: world_two_posts_def world0_def)
  have l: "(1::nat) < length (posts world_two_posts)" by (simp add: world_two_posts_def)
  have i0: "post_id (posts world_two_posts ! 0) = 9" by (simp add: world_two_posts_def)
  have i1: "post_id (posts world_two_posts ! 1) = 7" by (simp add: world_two_posts_def post7_def)
  have m0: "postTitleNormalized (posts world_two_posts ! 0) = Inr ''other news''" by code_simp
  have m: "postTitleNormalized (posts world_two_posts ! 1) = Inr ?nt" by code_simp
  have nt: "?nt = ''hello world''" by code_simp
  have b: "\<forall>j<(1::nat). postTitleNormalized (posts world_two_posts ! j) \<noteq> Inl TypeError"
    using m0 by simp
  have z: "\<forall>j\<le>(1::nat). post_id (posts world_two_posts ! j) \<noteq> 0"
    using i0 i1 by (auto simp: le_Suc_eq)
  have tw: "trace world_two_posts = []" by (simp add: world_two_posts_def world0_def)
  have tt: "trimmed (title row0) = ''Hello World''" by code_simp
  note th = C1_duplicate_title_rejected [OF t c p f l _ m b z, of 1]
  from th obtain j where j: "j \<le> 1"
      "postTitleNormalized (posts world_two_posts ! j) = Inr ?nt"
      "error (fst (createOrUpdatePost cfg0 row0 1 world_two_posts))
         = Some (DuplicateTitle (trimmed (title row0)) (post_id (posts world_two_posts ! j)))"
    by auto
  have "j \<noteq> 0"
  proof
    assume "j = 0"
    then have "Inr ''other news'' = (Inr ''hello world'' :: row_error + string)"
      using j(2) m0 nt by simp
    then show False by simp
  qed
  then have "j = 1" using j(1) by simp
  then have e: "error (fst (createOrUpdatePost cfg0 row0 1 world_two_posts))
                  = Some (DuplicateTitle ''Hello World'' 7)"
    using j(3) i1 tt by simp
  from th have r: "res_action (fst (createOrUpdatePost cfg0 row0 1 world_two_posts)) = None \<and>
         postId (fst (createOrUpdatePost cfg0 row0 1 world_two_posts)) = None \<and>
         filter is_post_write (trace (snd (createOrUpdatePost cfg0 row0 1 world_two_posts))) = [] \<and>
         posts (snd (createOrUpdatePost cfg0 row0 1 world_two_posts)) = posts world_two_posts"
    using tw by simp
  show ?thesis using t c p f l i0 i1 m0 m nt e r by simp
qed

section \<open>Create or update\<close>

lemma find_filter:
  "find P xs = (case filter P xs of [] \<Rightarrow> None | x # _ \<Rightarrow> Some x)"
  by (induction xs) auto

lemma findPostBySlug_answered:
  assumes "trim s \<noteq> []" and "\<not> fails w (clock w) (GetPostsBySlug (trim s))"
  shows "fst (findPostBySlug s w) = map_option post_id (find (\<lambda>p. post_slug p = trim s) (posts w))"
  using assms
  by (auto simp: findPostBySlug_def api_get_posts_slug_def http_def find_filter
      split: list.splits)

lemma post_id_of_found: "find P ps = Some p \<Longrightarrow> p \<in> set ps \<and> P p"
  by (induction ps) (auto split: if_splits)

lemma api_post_posts_id_result:
  "api_post_posts_id w i pd = (Inr (j, st), w') \<Longrightarrow> j = i"
  by (auto simp: api_post_posts_id_def split: prod.splits if_splits)

lemma api_post_posts_result:
  "api_post_posts w pd = (Inr (j, st), w') \<Longrightarrow>
     j = next_post_id w \<and> posts w' = post_of j pd # posts w"
  by (auto simp: api_post_posts_def http_def split: prod.splits if_splits)

text \<open>What \<open>write_post\<close> answers when the slug lookup is answered.\<close>

lemma write_post_with_slug:
  fixes w :: world
  assumes s: "pd_slug pd = Some s" and ts: "trim s = s" and ne: "s \<noteq> []"
    and ok: "\<not> fails w (clock w) (GetPostsBySlug s)"
    and nz: "\<forall>p \<in> set (posts w). post_id p \<noteq> 0"
    and wr: "write_post cfg pd w = (Inr (a, i, st), w')"
  shows "(\<forall>p. find (\<lambda>p. post_slug p = s) (posts w) = Some p \<longrightarrow> a = updated \<and> i = post_id p) \<and>
         (find (\<lambda>p. post_slug p = s) (posts w) = None \<longrightarrow>
            a = created \<and> posts w' = post_of i pd # posts w)"
proof -
  let ?d = "REQUEST_DELAY_MS cfg"
  obtain ex w1 where f: "findPostBySlug s w = (ex, w1)" by (cases "findPostBySlug s w")
  have ex: "ex = map_option post_id (find (\<lambda>p. post_slug p = s) (posts w))"
    using findPostBySlug_answered [of s w] ts ne ok f by simp
  have k1: "posts w1 = posts w" using keep_findPostBySlug [of s w] f by simp
  have w: "write_post cfg pd w =
      (let create = (case api_post_posts (sleep ?d w1) pd of
                       (Inl e, w3) \<Rightarrow> (Inl e, w3)
                     | (Inr (i, st), w3) \<Rightarrow> (Inr (created, i, st), w3))
       in (case ex of None \<Rightarrow> create
           | Some e \<Rightarrow> (if e \<noteq> 0
                then (case api_post_posts_id (sleep ?d w1) e pd of
                        (Inl err, w3) \<Rightarrow> (Inl err, w3)
                      | (Inr (i, st), w3) \<Rightarrow> (Inr (updated, i, st), w3))
                else create)))"
    using f s by (simp add: write_post_def Let_def)
  show ?thesis
  proof (cases "find (\<lambda>p. post_slug p = s) (posts w)")
    case None
    then have "ex = None" using ex by simp
    with w wr obtain j st' w3 where c: "api_post_posts (sleep ?d w1) pd = (Inr (j, st'), w3)"
      and r: "a = created" "i = j" "w' = w3"
      by (auto simp: Let_def split: prod.splits sum.splits)
    from api_post_posts_result [OF c] have "posts w3 = post_of j pd # posts w" using k1 by simp
    with None r show ?thesis by simp
  next
    case (Some p)
    then have e: "ex = Some (post_id p)" using ex by simp
    have "post_id p \<noteq> 0" using post_id_of_found [OF Some] nz by blast
    with w wr e obtain j st' w3 where c: "api_post_posts_id (sleep ?d w1) (post_id p) pd = (Inr (j, st'), w3)"
      and r: "a = updated" "i = j"
      by (auto simp: Let_def split: prod.splits sum.splits)
    from api_post_posts_id_result [OF c] r Some show ?thesis by simp
  qed
qed

text \<open>
  C2, as stated: a valid row with a slug is an update of the post with that slug when there
  is one. When the slug lookup itself fails, \<open>findPostBySlug\<close> answers \<open>null\<close> and the row is
  created as post 8, although post 7 has the slug.
\<close>

theorem C2_counterexample:
  "posts world_slug_fails = [post7] \<and> post_slug post7 = ''hello'' \<and> post_id post7 = 7 \<and>
   error (fst (createOrUpdatePost cfg0 (row0\<lparr>title := Some ''Other'', slug := Some ''hello''\<rparr>) 1
                  world_slug_fails)) = None \<and>
   res_action (fst (createOrUpdatePost cfg0 (row0\<lparr>title := Some ''Other'', slug := Some ''hello''\<rparr>) 1
                  world_slug_fails)) = Some created \<and>
   postId (fst (createOrUpdatePost cfg0 (row0\<lparr>title := Some ''Other'', slug := Some ''hello''\<rparr>) 1
                  world_slug_fails)) = Some 8"
proof (intro conjI)
  show "posts world_slug_fails = [post7]" by (simp add: world_slug_fails_def world0_def)
  show "post_slug post7 = ''hello''" by (simp add: post7_def)
  show "post_id post7 = 7" by (simp add: post7_def)
  show "error (fst (createOrUpdatePost cfg0 (row0\<lparr>title := Some ''Other'', slug := Some ''hello''\<rparr>) 1
                  world_slug_fails)) = None" by code_simp
  show "res_action (fst (createOrUpdatePost cfg0 (row0\<lparr>title := Some ''Other'', slug := Some ''hello''\<rparr>) 1
                  world_slug_fails)) = Some created" by code_simp
  show "postId (fst (createOrUpdatePost cfg0 (row0\<lparr>title := Some ''Other'', slug := Some ''hello''\<rparr>) 1
                  world_slug_fails)) = Some 8" by code_simp
qed

text \<open>
  C2, amended: let a row with a slug end without an error (title and content are there, no
  duplicate title was reported, the write succeeded), let the slug lookup be answered and
  the IDs of the store be positive. If a post of the store has exactly that slug, the
  result is \<open>updated\<close> with the ID of the first such post; if none has, it is \<open>created\<close> with
  the ID under which the new post now stands in front of the store's posts.
\<close>

theorem C2_slug_decides_action:
  fixes w :: world
  assumes er: "error (fst (createOrUpdatePost cfg r n w)) = None"
    and sl: "truthy_trim (slug r)"
    and ok: "\<forall>n. \<not> fails w n (GetPostsBySlug (trimmed (slug r)))"
    and nz: "\<forall>p \<in> set (posts w). post_id p \<noteq> 0"
  shows "(\<forall>p. find (\<lambda>p. post_slug p = trimmed (slug r)) (posts w) = Some p \<longrightarrow>
            res_action (fst (createOrUpdatePost cfg r n w)) = Some updated \<and>
            postId (fst (createOrUpdatePost cfg r n w)) = Some (post_id p)) \<and>
         (find (\<lambda>p. post_slug p = trimmed (slug r)) (posts w) = None \<longrightarrow>
            res_action (fst (createOrUpdatePost cfg r n w)) = Some created \<and>
            (\<exists>i. postId (fst (createOrUpdatePost cfg r n w)) = Some i \<and>
                 post_id (hd (posts (snd (createOrUpdatePost cfg r n w)))) = i \<and>
                 tl (posts (snd (createOrUpdatePost cfg r n w))) = posts w))"
proof -
  let ?s = "trimmed (slug r)"
  obtain x w' where t: "createOrUpdatePost_try cfg r w = (x, w')"
    by (cases "createOrUpdatePost_try cfg r w")
  from er t obtain a i st where x: "x = Inr (a, i, st)"
    by (cases x) (auto simp: createOrUpdatePost_def Let_def)
  have res: "res_action (fst (createOrUpdatePost cfg r n w)) = Some a"
    "postId (fst (createOrUpdatePost cfg r n w)) = Some i"
    "snd (createOrUpdatePost cfg r n w) = w'"
    using t x by (simp_all add: createOrUpdatePost_def Let_def)
  from t x have v: "truthy_trim (title r)" "truthy_trim (content r)"
    by (auto simp: createOrUpdatePost_try_def split: if_splits)
  obtain y w1 where p0: "prepare_postData cfg r w = (y, w1)" by (cases "prepare_postData cfg r w")
  with t x v obtain pd where p: "prepare_postData cfg r w = (Inr pd, w1)"
    by (cases y) (auto simp: createOrUpdatePost_try_def)
  have k1: "posts w1 = posts w \<and> fails w1 = fails w"
    using keep_prepare_postData [of cfg r w] p by simp
  obtain ex w2 where f: "findPostByTitle (pd_title pd) w1 = (ex, w2)"
    by (cases "findPostByTitle (pd_title pd) w1")
  have k2: "posts w2 = posts w \<and> fails w2 = fails w"
    using keep_findPostByTitle [of "pd_title pd" w1] f k1 by simp
  have cw: "check_and_write cfg pd w1 = (Inr (a, i, st), w')"
    using createOrUpdatePost_try_valid [OF v p] t x by simp
  then have wr: "write_post cfg pd w2 = (Inr (a, i, st), w')"
    using f by (auto simp: check_and_write_def split: option.splits if_splits)
  have ps: "pd_slug pd = Some ?s" using prepare_postData_fields(3) [OF p] sl by simp
  have ts: "trim ?s = ?s"
    using sl by (auto simp: trimmed_def truthy_trim_def trim_idem split: option.splits)
  have ne: "?s \<noteq> []" using sl by (auto simp: trimmed_def truthy_trim_def split: option.splits)
  have ok2: "\<not> fails w2 (clock w2) (GetPostsBySlug ?s)" using ok k2 by simp
  have nz2: "\<forall>p \<in> set (posts w2). post_id p \<noteq> 0" using nz k2 by simp
  note th = write_post_with_slug [OF ps ts ne ok2 nz2 wr]
  have "post_id (post_of i pd) = i" by (simp add: post_of_def)
  with th k2 res show ?thesis by auto
qed

theorem C2_slug_decides_action_witness:
  "error (fst (createOrUpdatePost cfg0 (row0\<lparr>title := Some ''Other'', slug := Some '' hello ''\<rparr>) 1 world0)) = None \<and>
   truthy_trim (slug (row0\<lparr>title := Some ''Other'', slug := Some '' hello ''\<rparr>)) \<and>
   (\<forall>n. \<not> fails world0 n (GetPostsBySlug ''hello'')) \<and>
   list_all (\<lambda>p. post_id p \<noteq> 0) (posts world0) \<and>
   find (\<lambda>p. post_slug p = ''hello'') (posts world0) = Some post7 \<and>
   res_action (fst (createOrUpdatePost cfg0 (row0\<lparr>title := Some ''Other'', slug := Some '' hello ''\<rparr>) 1 world0))
     = Some updated \<and>
   postId (fst (createOrUpdatePost cfg0 (row0\<lparr>title := Some ''Other'', slug := Some '' hello ''\<rparr>) 1 world0))
     = Some 7 \<and>
   error (fst (createOrUpdatePost cfg0 (row0\<lparr>title := Some ''Other'', slug := Some ''fresh''\<rparr>) 1 world0)) = None \<and>
   find (\<lambda>p. post_slug p = ''fresh'') (posts world0) = None \<and>
   res_action (fst (createOrUpdatePost cfg0 (row0\<lparr>title := Some ''Other'', slug := Some ''fresh''\<rparr>) 1 world0))
     = Some created \<and>
   postId (fst (createOrUpdatePost cfg0 (row0\<lparr>title := Some ''Other'', slug := Some ''fresh''\<rparr>) 1 world0))
     = Some 8"
proof -
  let ?r1 = "row0\<lparr>title := Some ''Other'', slug := Some '' hello ''\<rparr>"
  let ?r2 = "row0\<lparr>title := Some ''Other'', slug := Some ''fresh''\<rparr>"
  have e1: "error (fst (createOrUpdatePost cfg0 ?r1 1 world0)) = None" by code_simp
  have e2: "error (fst (createOrUpdatePost cfg0 ?r2 1 world0)) = None" by code_simp
  have s1: "truthy_trim (slug ?r1)" by code_simp
  have s2: "truthy_trim (slug ?r2)" by code_simp
  have t1: "trimmed (slug ?r1) = ''hello''" by code_simp
  have t2: "trimmed (slug ?r2) = ''fresh''" by code_simp
  have o: "\<And>s. \<forall>n. \<not> fails world0 n (GetPostsBySlug s)" by (simp add: world0_def)
  have z: "\<forall>p \<in> set (posts world0). post_id p \<noteq> 0" by (simp add: world0_def post7_def)
  have f1: "find (\<lambda>p. post_slug p = ''hello'') (posts world0) = Some post7"
    by (simp add: world0_def post7_def)
  have f2: "find (\<lambda>p. post_slug p = ''fresh'') (posts world0) = None"
    by (simp add: world0_def post7_def)
  have i7: "post_id post7 = 7" by (simp add: post7_def)
  have p8: "postId (fst (createOrUpdatePost cfg0 ?r2 1 world0)) = Some 8" by code_simp
  from C2_slug_decides_action [OF e1 s1 o z] f1 t1 i7
  have u: "res_action (fst (createOrUpdatePost cfg0 ?r1 1 world0)) = Some updated \<and>
           postId (fst (createOrUpdatePost cfg0 ?r1 1 world0)) = Some 7" by simp
  from C2_slug_decides_action [OF e2 s2 o z] f2 t2
  have c: "res_action (fst (createOrUpdatePost cfg0 ?r2 1 world0)) = Some created" by simp
  have z': "list_all (\<lambda>p. post_id p \<noteq> 0) (posts world0)" using z by (simp add: list_all_iff)
  show ?thesis using e1 s1 o z' f1 u e2 f2 c p8 by simp
qed

section \<open>Terms\<close>

lemma contains_refl: "contains p p"
  by (cases p) auto

lemma find_append: "find P (xs @ ys) = (case find P xs of None \<Rightarrow> find P ys | Some x \<Rightarrow> Some x)"
  by (induction xs) auto

lemma find_take_None: "find P xs = None \<Longrightarrow> find P (take n xs) = None"
  by (induction xs arbitrary: n) (auto simp: take_Cons split: nat.splits if_splits)

lemma terms_of_http [simp]: "terms_of tax (snd (http w rq)) = terms_of tax w"
  by (simp add: http_def terms_of_def split: taxonomy.splits)

lemma terms_of_sleep [simp]: "terms_of tax (sleep d w) = terms_of tax w"
  by (simp add: sleep_def terms_of_def split: taxonomy.splits)

text \<open>The two ways \<open>getOrCreateTerm\<close> succeeds: the search page holds a term of that name, or
  it holds none and the term is created under the next ID.\<close>

lemma getOrCreateTerm_found:
  fixes w :: world
  assumes "trim name \<noteq> []" and "\<not> fails w (clock w) (GetTerms tax (trim name))"
    and "find (\<lambda>t. toLowerCase (term_name t) = toLowerCase (trim name))
           (take 100 (filter (\<lambda>t. contains (toLowerCase (trim name)) (toLowerCase (term_name t)))
                        (terms_of tax w))) = Some t"
  shows "getOrCreateTerm cfg name tax w = (Some (term_id t), snd (http w (GetTerms tax (trim name))))"
  using assms by (simp add: getOrCreateTerm_def api_get_terms_def http_def Let_def)

lemma getOrCreateTerm_created:
  fixes w :: world
  assumes "trim name \<noteq> []" and "\<not> fails w (clock w) (GetTerms tax (trim name))"
    and "find (\<lambda>t. toLowerCase (term_name t) = toLowerCase (trim name))
           (take 100 (filter (\<lambda>t. contains (toLowerCase (trim name)) (toLowerCase (term_name t)))
                        (terms_of tax w))) = None"
    and "\<not> fails w (Suc (clock w)) (PostTerm tax (trim name))"
  shows "fst (getOrCreateTerm cfg name tax w) = Some (next_term_id w) \<and>
         terms_of tax (snd (getOrCreateTerm cfg name tax w))
           = terms_of tax w @ [\<lparr>term_id = next_term_id w, term_name = trim name\<rparr>] \<and>
         fails (snd (getOrCreateTerm cfg name tax w)) = fails w \<and>
         next_term_id (snd (getOrCreateTerm cfg name tax w)) = Suc (next_term_id w)"
  using assms
  by (simp add: getOrCreateTerm_def api_get_terms_def api_post_term_def http_def sleep_def Let_def
      add_term_def terms_of_def split: taxonomy.splits)

text \<open>
  C5, as stated: resolving a name twice in a row gives the same ID. On a connection whose
  first request fails, the first resolution of \<open>Tech\<close> answers \<open>null\<close> and changes nothing, and
  the second one creates the term and answers 6. And when a hundred other categories
  contain \<open>Tech\<close>, the search page never shows the new term: both resolutions create one, as
  6 and as 7.
\<close>

theorem C5_counterexample:
  "fst (getOrCreateTerm cfg0 ''Tech'' Categories world_first_fails) = None \<and>
   categories (snd (getOrCreateTerm cfg0 ''Tech'' Categories world_first_fails))
     = categories world_first_fails \<and>
   fst (getOrCreateTerm cfg0 ''Tech'' Categories
          (snd (getOrCreateTerm cfg0 ''Tech'' Categories world_first_fails))) = Some 6 \<and>
   fst (getOrCreateTerm cfg0 ''Tech'' Categories world_many_terms) = Some 6 \<and>
   fst (getOrCreateTerm cfg0 ''Tech'' Categories
          (snd (getOrCreateTerm cfg0 ''Tech'' Categories world_many_terms))) = Some 7"
proof (intro conjI)
  show "fst (getOrCreateTerm cfg0 ''Tech'' Categories world_first_fails) = None" by code_simp
  show "categories (snd (getOrCreateTerm cfg0 ''Tech'' Categories world_first_fails))
     = categories world_first_fails"
    by (simp add: getOrCreateTerm_def api_get_terms_def http_def world_first_fails_def world0_def
        trim_def is_space_def Let_def)
  show "fst (getOrCreateTerm cfg0 ''Tech'' Categories
          (snd (getOrCreateTerm cfg0 ''Tech'' Categories world_first_fails))) = Some 6" by code_simp
  define t where "t = \<lparr>term_id = 5, term_name = ''Technology''\<rparr>"
  define new where "new = \<lparr>term_id = 6, term_name = ''Tech''\<rparr>"
  define w1 where "w1 = snd (getOrCreateTerm cfg0 ''Tech'' Categories world_many_terms)"
  let ?M = "\<lambda>t. contains (toLowerCase (trim ''Tech'')) (toLowerCase (term_name t))"
  let ?E = "\<lambda>t. toLowerCase (term_name t) = toLowerCase (trim ''Tech'')"
  have tr: "trim ''Tech'' = ''Tech''" by code_simp
  have ne: "trim ''Tech'' \<noteq> []" by (simp add: tr)
  have m: "?M t" unfolding t_def by code_simp
  have e: "\<not> ?E t" unfolding t_def by code_simp
  have mn: "?M new" unfolding new_def by code_simp
  have f0: "fails world_many_terms = (\<lambda>n rq. False)" and n0: "next_term_id world_many_terms = 6"
    and t0: "terms_of Categories world_many_terms = replicate 100 t"
    by (simp_all add: world_many_terms_def world0_def terms_of_def t_def)
  have fr: "find ?E (replicate 100 t) = None" using e by (simp add: find_None_iff)
  have "filter ?M (replicate 100 t) = replicate 100 t" using m by simp
  then have s0: "find ?E (take 100 (filter ?M (terms_of Categories world_many_terms))) = None"
    using fr t0 by simp
  note c1 = getOrCreateTerm_created [OF ne _ s0, of cfg0]
  have r1: "fst (getOrCreateTerm cfg0 ''Tech'' Categories world_many_terms) = Some 6"
    and t1: "terms_of Categories w1 = replicate 100 t @ [new]"
    and f1: "fails w1 = (\<lambda>n rq. False)" and n1: "next_term_id w1 = 7"
    using c1 f0 n0 t0 by (simp_all add: w1_def new_def tr)
  have "take 100 (filter ?M (terms_of Categories w1)) = replicate 100 t"
    using m mn t1 by simp
  then have s1: "find ?E (take 100 (filter ?M (terms_of Categories w1))) = None"
    using fr by simp
  note c2 = getOrCreateTerm_created [OF ne _ s1, of cfg0]
  have r2: "fst (getOrCreateTerm cfg0 ''Tech'' Categories w1) = Some 7"
    using c2 f1 n1 by simp
  show "fst (getOrCreateTerm cfg0 ''Tech'' Categories world_many_terms) = Some 6" by (rule r1)
  show "fst (getOrCreateTerm cfg0 ''Tech'' Categories
          (snd (getOrCreateTerm cfg0 ''Tech'' Categories world_many_terms))) = Some 7"
    using r2 by (simp add: w1_def)
qed

text \<open>
  C5, amended: for a name that is not blank, if the search and create requests for it are
  answered and fewer than 100 terms of the taxonomy contain the name (so that the search
  page of 100 shows all of them), then resolving the name twice in a row gives the same
  ID both times, an ID of a term of the store whose name equals the trimmed name up to
  letter case; the second resolution only searches: it creates no term.
\<close>

theorem C5_term_resolution_repeatable:
  fixes w :: world
  assumes ne: "trim name \<noteq> []"
    and ok: "\<forall>n. \<not> fails w n (GetTerms tax (trim name)) \<and> \<not> fails w n (PostTerm tax (trim name))"
    and few: "length (filter (\<lambda>t. contains (toLowerCase (trim name)) (toLowerCase (term_name t)))
                         (terms_of tax w)) < 100"
  shows "fst (getOrCreateTerm cfg name tax (snd (getOrCreateTerm cfg name tax w)))
           = fst (getOrCreateTerm cfg name tax w) \<and>
         (\<exists>t \<in> set (terms_of tax (snd (getOrCreateTerm cfg name tax w))).
            fst (getOrCreateTerm cfg name tax w) = Some (term_id t) \<and>
            toLowerCase (term_name t) = toLowerCase (trim name)) \<and>
         terms_of tax (snd (getOrCreateTerm cfg name tax (snd (getOrCreateTerm cfg name tax w))))
           = terms_of tax (snd (getOrCreateTerm cfg name tax w)) \<and>
         trace (snd (getOrCreateTerm cfg name tax (snd (getOrCreateTerm cfg name tax w))))
           = Call (GetTerms tax (trim name)) # trace (snd (getOrCreateTerm cfg name tax w))"
proof -
  let ?M = "\<lambda>t. contains (toLowerCase (trim name)) (toLowerCase (term_name t))"
  let ?E = "\<lambda>t. toLowerCase (term_name t) = toLowerCase (trim name)"
  let ?q = "GetTerms tax (trim name)"
  have pg: "take 100 (filter ?M (terms_of tax w)) = filter ?M (terms_of tax w)"
    using few by simp
  from ok have okg: "\<And>v :: world. fails v = fails w \<Longrightarrow> \<not> fails v (clock v) ?q"
    and okp: "\<And>v :: world. fails v = fails w \<Longrightarrow> \<not> fails v (Suc (clock v)) (PostTerm tax (trim name))"
    by simp_all
  show ?thesis
  proof (cases "find ?E (filter ?M (terms_of tax w))")
    case (Some t)
    define w1 where "w1 = snd (http w ?q)"
    have g1: "getOrCreateTerm cfg name tax w = (Some (term_id t), w1)"
      unfolding w1_def using ne okg [of w] Some pg by (intro getOrCreateTerm_found) simp_all
    have f1: "fails w1 = fails w" and t1: "terms_of tax w1 = terms_of tax w"
      by (simp_all add: w1_def)
    have g2: "getOrCreateTerm cfg name tax w1 = (Some (term_id t), snd (http w1 ?q))"
      using ne okg [OF f1] Some pg t1 by (intro getOrCreateTerm_found) simp_all
    have "t \<in> set (terms_of tax w1) \<and> ?E t"
      using post_id_of_found [OF Some] t1 by simp
    then show ?thesis using g1 g2 by auto
  next
    case None
    have n1: "find ?E (take 100 (filter ?M (terms_of tax w))) = None" using None pg by simp
    define new where "new = \<lparr>term_id = next_term_id w, term_name = trim name\<rparr>"
    define w1 where "w1 = snd (getOrCreateTerm cfg name tax w)"
    have c: "fst (getOrCreateTerm cfg name tax w) = Some (next_term_id w)"
      and t1: "terms_of tax w1 = terms_of tax w @ [new]" and f1: "fails w1 = fails w"
      using getOrCreateTerm_created [OF ne okg [of w] n1 okp [of w], of cfg]
      by (simp_all add: w1_def new_def)
    have mn: "?M new" and en: "?E new" by (simp_all add: new_def contains_refl)
    have pg2: "take 100 (filter ?M (terms_of tax w1)) = filter ?M (terms_of tax w) @ [new]"
      using few t1 mn by simp
    have "find ?E (take 100 (filter ?M (terms_of tax w1))) = Some new"
      unfolding pg2 using None en by (simp add: find_append)
    then have g2: "getOrCreateTerm cfg name tax w1 = (Some (term_id new), snd (http w1 ?q))"
      using ne okg [OF f1] by (intro getOrCreateTerm_found) simp_all
    have "new \<in> set (terms_of tax w1)" using t1 by simp
    moreover have ti: "term_id new = next_term_id w" by (simp add: new_def)
    ultimately have ex: "\<exists>t \<in> set (terms_of tax w1).
            fst (getOrCreateTerm cfg name tax w) = Some (term_id t) \<and> ?E t"
      using c en by (intro bexI [of _ new]) simp_all
    show ?thesis unfolding w1_def [symmetric] using c g2 ti ex by simp
  qed
qed

theorem C5_term_resolution_repeatable_witness:
  "trim '' tech '' \<noteq> [] \<and>
   (\<forall>n. \<not> fails world0 n (GetTerms Categories (trim '' tech '')) \<and>
        \<not> fails world0 n (PostTerm Categories (trim '' tech ''))) \<and>
   length (filter (\<lambda>t. contains (toLowerCase (trim '' tech '')) (toLowerCase (term_name t)))
             (terms_of Categories world0)) < 100 \<and>
   fst (getOrCreateTerm cfg0 '' tech '' Categories world0) = Some 6 \<and>
   fst (getOrCreateTerm cfg0 '' tech '' Categories
          (snd (getOrCreateTerm cfg0 '' tech '' Categories world0))) = Some 6 \<and>
   length (categories (snd (getOrCreateTerm cfg0 '' tech '' Categories
          (snd (getOrCreateTerm cfg0 '' tech '' Categories world0))))) = 2"
proof -
  have ne: "trim '' tech '' \<noteq> []" by code_simp
  have ok: "\<forall>n. \<not> fails world0 n (GetTerms Categories (trim '' tech '')) \<and>
        \<not> fails world0 n (PostTerm Categories (trim '' tech ''))" by (simp add: world0_def)
  have few: "length (filter (\<lambda>t. contains (toLowerCase (trim '' tech '')) (toLowerCase (term_name t)))
             (terms_of Categories world0)) < 100" by (simp add: world0_def terms_of_def)
  have a: "fst (getOrCreateTerm cfg0 '' tech '' Categories world0) = Some 6" by code_simp
  have l: "length (categories (snd (getOrCreateTerm cfg0 '' tech '' Categories world0))) = 2"
    by code_simp
  note th = C5_term_resolution_repeatable [OF ne ok few, of cfg0]
  from th a have b: "fst (getOrCreateTerm cfg0 '' tech '' Categories
          (snd (getOrCreateTerm cfg0 '' tech '' Categories world0))) = Some 6" by simp
  from th have "terms_of Categories (snd (getOrCreateTerm cfg0 '' tech '' Categories
          (snd (getOrCreateTerm cfg0 '' tech '' Categories world0))))
        = terms_of Categories (snd (getOrCreateTerm cfg0 '' tech '' Categories world0))" by simp
  then have c: "length (categories (snd (getOrCreateTerm cfg0 '' tech '' Categories
          (snd (getOrCreateTerm cfg0 '' tech '' Categories world0))))) = 2"
    using l by (simp add: terms_of_def)
  show ?thesis using ne ok few a b c by blast
qed

end
